theory Spec2Isabelle
  imports Main "HOL-Library.Word"
begin

unbundle bit_operations_syntax

section \<open>The WebSocket protocol of the WSGI engine (wsgi/protocolwebsocket.cpp)\<close>

subsection \<open>Data\<close>

text \<open>
  A \<^verbatim>\<open>QByteArray\<close> is a list of bytes, a \<^verbatim>\<open>QString\<close> a list of UTF-16 code units.
  Sizes of byte arrays are C++ \<^verbatim>\<open>int\<close>s that never go negative; they are natural numbers here.
\<close>

type_synonym byte = "8 word"
type_synonym bytes = "8 word list"
type_synonym qstring = "16 word list"

text \<open>
  The text codec (\<^verbatim>\<open>QTextCodec\<close> for UTF-8, \<^verbatim>\<open>QString::toUtf8\<close>) belongs to Qt and is
  not part of the repository: it is a parameter. \<open>toUnicode\<close> decodes with a fresh
  \<^verbatim>\<open>ConverterState\<close> and returns the text with the state's \<^verbatim>\<open>invalidChars\<close> and
  \<^verbatim>\<open>remainingChars\<close> counters.
\<close>

record codec =
  toUnicode :: "bytes \<Rightarrow> qstring \<times> nat \<times> nat"
  toUtf8 :: "qstring \<Rightarrow> bytes"

text \<open>
  Modelled from the spec: the enums \<^verbatim>\<open>Socket::OpCode\<close> and \<^verbatim>\<open>Socket::WebSocketPhase\<close>
  (socket.h) and \<^verbatim>\<open>Cutelyst::Response::CloseCode\<close> (response.h) are declared outside the
  sources at hand. The opcodes are those of the spec (reserved ranges 3-7 and 0xB-0xF,
  Pong 0xA) and of RFC 6455, the four phases are the spec's, and the close codes are the
  RFC 6455 status codes the spec names (1000 normal closure, 1002 protocol error,
  1005 the missing-status placeholder).
\<close>

definition OpCodeContinue :: byte where "OpCodeContinue = 0x0"
definition OpCodeText :: byte where "OpCodeText = 0x1"
definition OpCodeBinary :: byte where "OpCodeBinary = 0x2"
definition OpCodeReserved3 :: byte where "OpCodeReserved3 = 0x3"
definition OpCodeReserved7 :: byte where "OpCodeReserved7 = 0x7"
definition OpCodeClose :: byte where "OpCodeClose = 0x8"
definition OpCodePing :: byte where "OpCodePing = 0x9"
definition OpCodePong :: byte where "OpCodePong = 0xA"
definition OpCodeReservedB :: byte where "OpCodeReservedB = 0xB"
definition OpCodeReservedF :: byte where "OpCodeReservedF = 0xF"

lemmas OpCode_defs =
  OpCodeContinue_def OpCodeText_def OpCodeBinary_def OpCodeReserved3_def
  OpCodeReserved7_def OpCodeClose_def OpCodePing_def OpCodePong_def
  OpCodeReservedB_def OpCodeReservedF_def

datatype WebSocketPhase =
  WebSocketPhaseHeaders | WebSocketPhaseSize | WebSocketPhaseMask | WebSocketPhasePayload

definition CloseCodeNormal :: "16 word" where "CloseCodeNormal = 1000"
definition CloseCodeGoingAway :: "16 word" where "CloseCodeGoingAway = 1001"
definition CloseCodeProtocolError :: "16 word" where "CloseCodeProtocolError = 1002"
definition CloseCodeDatatypeNotSupported :: "16 word" where "CloseCodeDatatypeNotSupported = 1003"
definition CloseCodeMissingStatusCode :: "16 word" where "CloseCodeMissingStatusCode = 1005"
definition CloseCodeWrongDatatype :: "16 word" where "CloseCodeWrongDatatype = 1007"
definition CloseCodePolicyViolated :: "16 word" where "CloseCodePolicyViolated = 1008"
definition CloseCodeTooMuchData :: "16 word" where "CloseCodeTooMuchData = 1009"
definition CloseCodeMissingExtension :: "16 word" where "CloseCodeMissingExtension = 1010"
definition CloseCodeBadOperation :: "16 word" where "CloseCodeBadOperation = 1011"

lemmas CloseCode_defs =
  CloseCodeNormal_def CloseCodeGoingAway_def CloseCodeProtocolError_def
  CloseCodeDatatypeNotSupported_def CloseCodeMissingStatusCode_def
  CloseCodeWrongDatatype_def CloseCodePolicyViolated_def CloseCodeTooMuchData_def
  CloseCodeMissingExtension_def CloseCodeBadOperation_def

text \<open>
  The constructor \<^verbatim>\<open>ProtocolWebSocket::ProtocolWebSocket(CWSGI::WSGI *wsgi)\<close>: the maximum
  message size is configured in KiB and kept in bytes, in a C++ \<^verbatim>\<open>int\<close>.
\<close>

definition ProtocolWebSocket_max_size :: "32 word \<Rightarrow> 32 word" where
  "ProtocolWebSocket_max_size websocketMaxSize = websocketMaxSize * 1024"

subsection \<open>The frame encoder\<close>

text \<open>\<^verbatim>\<open>ProtocolWebSocket::createWebsocketHeader(quint8 opcode, quint64 len)\<close>.\<close>

definition createWebsocketHeader :: "byte \<Rightarrow> 64 word \<Rightarrow> bytes" where
  "createWebsocketHeader opcode len =
     [0x80 + opcode] @
     (if len < 126 then [ucast len]
      else if len \<le> 0xffff then
        [126, ucast (drop_bit 8 len AND 0xff), ucast (len AND 0xff)]
      else
        [127,
         ucast (drop_bit 56 len AND 0xff), ucast (drop_bit 48 len AND 0xff),
         ucast (drop_bit 40 len AND 0xff), ucast (drop_bit 32 len AND 0xff),
         ucast (drop_bit 24 len AND 0xff), ucast (drop_bit 16 len AND 0xff),
         ucast (drop_bit 8 len AND 0xff), ucast (len AND 0xff)])"

text \<open>
  \<^verbatim>\<open>ProtocolWebSocket::createWebsocketCloseReply(const QString &msg, quint16 closeCode)\<close>:
  the header of a Close frame, the two bytes of the code, the reason cut to 123 bytes.
\<close>

definition createWebsocketCloseReply :: "codec \<Rightarrow> qstring \<Rightarrow> 16 word \<Rightarrow> bytes" where
  "createWebsocketCloseReply cd msg closeCode =
     (let data = take 123 (toUtf8 cd msg);
          payload = createWebsocketHeader OpCodeClose (of_nat (length data + 2))
      in payload
         @ [ucast (drop_bit 8 closeCode AND 0xff), ucast (closeCode AND 0xff)]
         @ data)"

subsection \<open>Big-endian readers\<close>

text \<open>
  \<^verbatim>\<open>ws_be16\<close> and \<^verbatim>\<open>ws_be64\<close> read the buffer through a pointer cast to a 32-bit and a
  64-bit integer and store the result byte by byte. The model is the little-endian
  machine the engine is built for: \<open>load32\<close> and \<open>load64\<close> are the loads, \<open>store16\<close> and
  \<open>store64\<close> the values of \<^verbatim>\<open>ret\<close> once \<^verbatim>\<open>ptr[0..]\<close> are written. \<^verbatim>\<open>ws_be16\<close> loads four
  bytes although only two belong to the length field; the other two are whatever follows
  in the buffer.
\<close>

definition load32 :: "bytes \<Rightarrow> 32 word" where
  "load32 buf =
     ucast (buf ! 0) OR push_bit 8 (ucast (buf ! 1)) OR
     push_bit 16 (ucast (buf ! 2)) OR push_bit 24 (ucast (buf ! 3))"

definition load64 :: "bytes \<Rightarrow> 64 word" where
  "load64 buf =
     ucast (buf ! 0) OR push_bit 8 (ucast (buf ! 1)) OR
     push_bit 16 (ucast (buf ! 2)) OR push_bit 24 (ucast (buf ! 3)) OR
     push_bit 32 (ucast (buf ! 4)) OR push_bit 40 (ucast (buf ! 5)) OR
     push_bit 48 (ucast (buf ! 6)) OR push_bit 56 (ucast (buf ! 7))"

definition store16 :: "byte \<Rightarrow> byte \<Rightarrow> 16 word" where
  "store16 p0 p1 = ucast p0 OR push_bit 8 (ucast p1)"

definition store64 ::
  "byte \<Rightarrow> byte \<Rightarrow> byte \<Rightarrow> byte \<Rightarrow> byte \<Rightarrow> byte \<Rightarrow> byte \<Rightarrow> byte \<Rightarrow> 64 word" where
  "store64 p0 p1 p2 p3 p4 p5 p6 p7 =
     ucast p0 OR push_bit 8 (ucast p1) OR push_bit 16 (ucast p2) OR
     push_bit 24 (ucast p3) OR push_bit 32 (ucast p4) OR push_bit 40 (ucast p5) OR
     push_bit 48 (ucast p6) OR push_bit 56 (ucast p7)"

definition ws_be16 :: "bytes \<Rightarrow> 16 word" where
  "ws_be16 buf =
     (let src = load32 buf
      in store16 (ucast (drop_bit 8 src AND 0xff)) (ucast (src AND 0xff)))"

definition ws_be64 :: "bytes \<Rightarrow> 64 word" where
  "ws_be64 buf =
     (let src = load64 buf
      in store64
           (ucast (drop_bit 56 src AND 0xff)) (ucast (drop_bit 48 src AND 0xff))
           (ucast (drop_bit 40 src AND 0xff)) (ucast (drop_bit 32 src AND 0xff))
           (ucast (drop_bit 24 src AND 0xff)) (ucast (drop_bit 16 src AND 0xff))
           (ucast (drop_bit 8 src AND 0xff)) (ucast (src AND 0xff)))"

subsection \<open>Unmasking\<close>

text \<open>
  The loop of \<^verbatim>\<open>websocket_parse_payload\<close>:
  \<^verbatim>\<open>for (uint i = 0, maskIx = payload.size(); i < len; ++i, ++maskIx) buf[i] = buf[i] ^ mask[maskIx % 4];\<close>
  where \<^verbatim>\<open>mask\<close> points at the four bytes of \<^verbatim>\<open>websocket_mask\<close> in memory.
\<close>

definition mask_byte :: "32 word \<Rightarrow> nat \<Rightarrow> byte" where
  "mask_byte m k = ucast (drop_bit (8 * k) m)"

fun unmask :: "32 word \<Rightarrow> nat \<Rightarrow> bytes \<Rightarrow> bytes" where
  "unmask m maskIx [] = []"
| "unmask m maskIx (b # buf) = (b XOR mask_byte m (maskIx mod 4)) # unmask m (Suc maskIx) buf"

subsection \<open>The connection's frame state and what the engine does to its collaborators\<close>

text \<open>
  Every call the engine makes on the session (\<^verbatim>\<open>Cutelyst::Request\<close>), on the device
  (\<^verbatim>\<open>io->write\<close>) and on the socket (\<^verbatim>\<open>connectionClose\<close>) is recorded, in order, in one
  trace.
\<close>

datatype event =
    WebSocketTextFrame qstring bool
  | WebSocketTextMessage qstring
  | WebSocketBinaryFrame bytes bool
  | WebSocketBinaryMessage bytes
  | WebSocketPong bytes
  | WebSocketClosed "16 word" qstring
  | IoWrite bytes
  | ConnectionClose

text \<open>
  Modelled from the spec: the fields of \<^verbatim>\<open>Socket\<close> (socket.h, not among the sources), with
  the types of the spec's data model: \<^verbatim>\<open>websocket_need\<close> is the 32-bit unsigned that
  \<^verbatim>\<open>qMin\<close> in \<^verbatim>\<open>readyRead\<close> takes with a \<^verbatim>\<open>quint32\<close>, \<^verbatim>\<open>websocket_payload_size\<close> the 64-bit
  unsigned length, \<^verbatim>\<open>websocket_mask\<close> the 32-bit word the mask bytes are copied into.
\<close>

record sock =
  websocket_need :: "32 word"
  websocket_phase :: WebSocketPhase
  websocket_finn_opcode :: byte
  websocket_payload_size :: "64 word"
  websocket_continue_opcode :: byte
  websocket_mask :: "32 word"
  websocket_start_of_frame :: nat
  websocket_message :: bytes
  websocket_payload :: bytes
  trace :: "event list"

definition emit :: "event \<Rightarrow> sock \<Rightarrow> sock" where
  "emit e sock = sock\<lparr>trace := trace sock @ [e]\<rparr>"

definition connectionClose :: "sock \<Rightarrow> sock" where
  "connectionClose sock = emit ConnectionClose sock"

definition closed :: "sock \<Rightarrow> bool" where
  "closed sock = (ConnectionClose \<in> set (trace sock))"

subsection \<open>Dispatch of completed frames\<close>

text \<open>
  \<^verbatim>\<open>ProtocolWebSocket::send_text(Cutelyst::Context *c, Socket *sock, bool singleFrame)\<close>.
  \<open>send_text_payload\<close> is its local variable \<^verbatim>\<open>payload\<close>: the payload of the frame, or,
  when earlier bytes of the message are still undecoded, the message from
  \<^verbatim>\<open>websocket_start_of_frame\<close> on (\<^verbatim>\<open>QByteArray::mid\<close>).
\<close>

definition send_text_payload :: "sock \<Rightarrow> nat \<Rightarrow> bytes" where
  "send_text_payload sock msg_size =
     (if websocket_start_of_frame sock \<noteq> msg_size
      then drop (websocket_start_of_frame sock) (websocket_message sock)
      else websocket_payload sock)"

definition send_text :: "codec \<Rightarrow> sock \<Rightarrow> bool \<Rightarrow> bool \<times> sock" where
  "send_text cd sock0 singleFrame =
     (let msg_size = length (websocket_message sock0);
          sock1 = sock0\<lparr>websocket_message := websocket_message sock0 @ websocket_payload sock0\<rparr>;
          payload = send_text_payload sock1 msg_size;
          (frame, invalidChars, remainingChars) = toUnicode cd payload;
          failed = (invalidChars \<noteq> 0 \<or> remainingChars \<noteq> 0);
          fin = (websocket_finn_opcode sock1 AND 0x80 \<noteq> 0)
      in if singleFrame \<and> (failed \<or> (frame = [] \<and> payload \<noteq> []))
         then (False, connectionClose sock1)
         else
           (let sock2 =
                  (if \<not> failed
                   then emit (WebSocketTextFrame frame fin)
                          (sock1\<lparr>websocket_start_of_frame := length (websocket_message sock1)\<rparr>)
                   else sock1)
            in if fin then
                 (let sock3 = sock2\<lparr>websocket_continue_opcode := 0\<rparr>
                  in if singleFrame \<or> websocket_payload sock3 = websocket_message sock3
                     then (True, (emit (WebSocketTextMessage frame) sock3)
                                   \<lparr>websocket_message := [], websocket_payload := []\<rparr>)
                     else
                       (let (msg, invalidCharsMsg, remainingCharsMsg) =
                              toUnicode cd (websocket_message sock3);
                            failedMsg = (invalidChars \<noteq> 0 \<or> remainingChars \<noteq> 0)
                        in if failedMsg then (False, connectionClose sock3)
                           else (True, (emit (WebSocketTextMessage msg) sock3)
                                         \<lparr>websocket_message := [], websocket_payload := []\<rparr>)))
               else (True, sock2)))"

text \<open>\<^verbatim>\<open>ProtocolWebSocket::send_binary(Cutelyst::Context *c, Socket *sock, bool singleFrame)\<close>.\<close>

definition send_binary :: "sock \<Rightarrow> bool \<Rightarrow> sock" where
  "send_binary sock0 singleFrame =
     (let sock1 = sock0\<lparr>websocket_message := websocket_message sock0 @ websocket_payload sock0\<rparr>;
          frame = websocket_payload sock1;
          fin = (websocket_finn_opcode sock1 AND 0x80 \<noteq> 0);
          sock2 = emit (WebSocketBinaryFrame frame fin) sock1
      in if fin then
           (let sock3 = sock2\<lparr>websocket_continue_opcode := 0\<rparr>;
                sock4 = (if singleFrame \<or> websocket_payload sock3 = websocket_message sock3
                         then emit (WebSocketBinaryMessage frame) sock3
                         else emit (WebSocketBinaryMessage (websocket_message sock3)) sock3)
            in sock4\<lparr>websocket_message := [], websocket_payload := []\<rparr>)
         else sock2)"

text \<open>\<^verbatim>\<open>ProtocolWebSocket::send_pong(QIODevice *io, const QByteArray data)\<close>: two writes.\<close>

definition send_pong :: "sock \<Rightarrow> bytes \<Rightarrow> sock" where
  "send_pong sock data =
     emit (IoWrite data)
       (emit (IoWrite (createWebsocketHeader OpCodePong (of_nat (length data)))) sock)"

text \<open>
  \<^verbatim>\<open>ProtocolWebSocket::send_closed(Cutelyst::Context *c, Socket *sock, QIODevice *io)\<close>,
  in two parts. \<open>send_closed_check\<close> is the block after the notification, which rewrites
  \<^verbatim>\<open>reason\<close> and \<^verbatim>\<open>closeCode\<close>: the test of the converter state, then the \<^verbatim>\<open>switch\<close> over
  the close code, written as a chain of tests in the order of its \<^verbatim>\<open>case\<close> labels.
\<close>

definition send_closed_check ::
  "16 word \<Rightarrow> qstring \<Rightarrow> nat \<Rightarrow> nat \<Rightarrow> bytes \<Rightarrow> qstring \<times> 16 word" where
  "send_closed_check closeCode reason invalidChars remainingChars payload =
     (if invalidChars \<noteq> 0 \<or> remainingChars \<noteq> 0 then ([], CloseCodeProtocolError)
      else if closeCode < 3000 \<or> closeCode > 4999 then
        (if closeCode = CloseCodeNormal \<or> closeCode = CloseCodeGoingAway \<or>
            closeCode = CloseCodeProtocolError \<or>
            closeCode = CloseCodeDatatypeNotSupported
         then (reason, closeCode)
         else if closeCode = CloseCodeMissingStatusCode then
           (if payload = [] then (reason, CloseCodeNormal)
            else (reason, CloseCodeProtocolError))
         else if closeCode = CloseCodeWrongDatatype \<or>
                 closeCode = CloseCodePolicyViolated \<or>
                 closeCode = CloseCodeTooMuchData \<or>
                 closeCode = CloseCodeMissingExtension \<or>
                 closeCode = CloseCodeBadOperation
         then (reason, closeCode)
         else ([], CloseCodeProtocolError))
      else (reason, closeCode))"

definition send_closed :: "codec \<Rightarrow> sock \<Rightarrow> sock" where
  "send_closed cd sock =
     (let (closeCode0, reason0, invalidChars, remainingChars) =
            (if length (websocket_payload sock) \<ge> 2
             then (let (r, i, m) = toUnicode cd (drop 2 (websocket_payload sock))
                   in (ws_be16 (websocket_payload sock), r, i, m))
             else (CloseCodeMissingStatusCode, [], 0, 0));
          sock1 = emit (WebSocketClosed closeCode0 reason0) sock;
          (reason, closeCode) =
            send_closed_check closeCode0 reason0 invalidChars remainingChars
              (websocket_payload sock);
          reply = createWebsocketCloseReply cd reason closeCode
      in connectionClose (emit (IoWrite reply) sock1))"

subsection \<open>The four phases\<close>

text \<open>\<^verbatim>\<open>ProtocolWebSocket::websocket_parse_header(Socket *sock, const char *buf, QIODevice *io)\<close>.\<close>

definition websocket_parse_header :: "codec \<Rightarrow> sock \<Rightarrow> bytes \<Rightarrow> bool \<times> sock" where
  "websocket_parse_header cd sock0 buf =
     (let byte1 = buf ! 0;
          byte2 = buf ! 1;
          sock1 = sock0\<lparr>websocket_finn_opcode := byte1,
                        websocket_payload_size := ucast (byte2 AND 0x7f)\<rparr>;
          opcode = byte1 AND 0xf;
          websocket_has_mask = (drop_bit 7 byte2 \<noteq> 0)
      in if \<not> websocket_has_mask \<or>
            ((opcode = OpCodePing \<or> opcode = OpCodeClose) \<and> websocket_payload_size sock1 > 125) \<or>
            byte1 AND 0x70 \<noteq> 0 \<or>
            ((opcode \<ge> OpCodeReserved3 \<and> opcode \<le> OpCodeReserved7) \<or>
             (opcode \<ge> OpCodeReservedB \<and> opcode \<le> OpCodeReservedF)) \<or>
            (\<not> byte1 AND 0x80 \<noteq> 0 \<and> opcode \<noteq> OpCodeText \<and> opcode \<noteq> OpCodeBinary \<and>
               opcode \<noteq> OpCodeContinue) \<or>
            (websocket_continue_opcode sock1 \<noteq> 0 \<and>
               (opcode = OpCodeText \<or> opcode = OpCodeBinary))
         then (False,
               connectionClose (emit (IoWrite (createWebsocketCloseReply cd [] 1002)) sock1))
         else
           (let sock2 =
                  (if opcode = OpCodeText \<or> opcode = OpCodeBinary then
                     (let s = sock1\<lparr>websocket_message := [], websocket_start_of_frame := 0\<rparr>
                      in if \<not> byte1 AND 0x80 \<noteq> 0
                         then s\<lparr>websocket_continue_opcode := opcode\<rparr> else s)
                   else sock1)
            in if websocket_payload_size sock2 = 126 then
                 (True, sock2\<lparr>websocket_need := 2, websocket_phase := WebSocketPhaseSize\<rparr>)
               else if websocket_payload_size sock2 = 127 then
                 (True, sock2\<lparr>websocket_need := 8, websocket_phase := WebSocketPhaseSize\<rparr>)
               else
                 (True, sock2\<lparr>websocket_need := 4, websocket_phase := WebSocketPhaseMask\<rparr>)))"

text \<open>
  \<^verbatim>\<open>ProtocolWebSocket::websocket_parse_size(Socket *sock, const char *buf, int websockets_max_message_size)\<close>.
  The maximum is a C++ \<^verbatim>\<open>int\<close>; \<^verbatim>\<open>static_cast<quint64>\<close> extends its sign.
\<close>

definition websocket_parse_size :: "sock \<Rightarrow> bytes \<Rightarrow> 32 word \<Rightarrow> bool \<times> sock" where
  "websocket_parse_size sock buf websockets_max_message_size =
     (case (if websocket_payload_size sock = 126 then Some (ucast (ws_be16 buf))
            else if websocket_payload_size sock = 127 then Some (ws_be64 buf)
            else None) of
        None \<Rightarrow> (False, connectionClose sock)
      | Some size' \<Rightarrow>
          if size' > (scast websockets_max_message_size :: 64 word)
          then (False, connectionClose sock)
          else (True, sock\<lparr>websocket_payload_size := size', websocket_need := 4,
                           websocket_phase := WebSocketPhaseMask\<rparr>))"

text \<open>
  \<^verbatim>\<open>ProtocolWebSocket::websocket_parse_payload(Socket *sock, char *buf, uint len, QIODevice *io)\<close>:
  unmask \<^verbatim>\<open>len\<close> bytes, append them, and dispatch once the payload is complete.
\<close>

definition websocket_parse_payload :: "codec \<Rightarrow> sock \<Rightarrow> bytes \<Rightarrow> nat \<Rightarrow> bool \<times> sock" where
  "websocket_parse_payload cd sock0 buf len =
     (let buf' = unmask (websocket_mask sock0) (length (websocket_payload sock0)) (take len buf);
          sock1 = sock0\<lparr>websocket_payload := websocket_payload sock0 @ buf'\<rparr>
      in if length (websocket_payload sock1) < unat (websocket_payload_size sock1)
         then (True, sock1\<lparr>websocket_need := websocket_need sock1 - of_nat len\<rparr>)
         else
           (let sock2 = sock1\<lparr>websocket_need := 2, websocket_phase := WebSocketPhaseHeaders\<rparr>;
                opcode = websocket_finn_opcode sock2 AND 0xf;
                fin = (websocket_finn_opcode sock2 AND 0x80 \<noteq> 0)
            in if opcode = OpCodeContinue then
                 (if websocket_continue_opcode sock2 = OpCodeText then send_text cd sock2 False
                  else if websocket_continue_opcode sock2 = OpCodeBinary
                  then (True, send_binary sock2 False)
                  else (False, connectionClose sock2))
               else if opcode = OpCodeText then send_text cd sock2 fin
               else if opcode = OpCodeBinary then (True, send_binary sock2 fin)
               else if opcode = OpCodeClose then (False, send_closed cd sock2)
               else if opcode = OpCodePing
               then (True, send_pong sock2 (take 125 (websocket_payload sock2)))
               else if opcode = OpCodePong
               then (True, emit (WebSocketPong (websocket_payload sock2)) sock2)
               else (True, sock2)))"

text \<open>
  \<^verbatim>\<open>ProtocolWebSocket::websocket_parse_mask(Socket *sock, char *buf, QIODevice *io)\<close>. The
  result of the call it makes for an empty payload is dropped, as in the source.
\<close>

definition websocket_parse_mask :: "codec \<Rightarrow> sock \<Rightarrow> bytes \<Rightarrow> sock" where
  "websocket_parse_mask cd sock0 buf =
     (let sock1 = sock0\<lparr>websocket_mask := load32 buf,
                        websocket_phase := WebSocketPhasePayload,
                        websocket_need := ucast (websocket_payload_size sock0),
                        websocket_payload := []\<rparr>
      in if websocket_payload_size sock1 = 0
         then snd (websocket_parse_payload cd sock1 buf 0)
         else sock1)"

subsection \<open>The read loop\<close>

text \<open>
  The device holds the bytes that have arrived and are not read yet. \<^verbatim>\<open>io->read\<close> hands
  out at most \<^verbatim>\<open>maxlen\<close> of them, or fails (\<^verbatim>\<open>-1\<close>) on a broken device.
\<close>

record iodev =
  pending :: bytes
  read_fails :: bool

definition io_read :: "iodev \<Rightarrow> nat \<Rightarrow> (bytes \<times> iodev) option" where
  "io_read io maxlen =
     (if read_fails io then None
      else Some (take maxlen (pending io), io\<lparr>pending := drop maxlen (pending io)\<rparr>))"

text \<open>The \<^verbatim>\<open>switch\<close> over the phase in \<^verbatim>\<open>readyRead\<close>, on the bytes just read.\<close>

definition readyRead_switch :: "codec \<Rightarrow> 32 word \<Rightarrow> sock \<Rightarrow> bytes \<Rightarrow> bool \<times> sock" where
  "readyRead_switch cd m_websockets_max_size sock buf =
     (case websocket_phase sock of
        WebSocketPhaseHeaders \<Rightarrow> websocket_parse_header cd sock buf
      | WebSocketPhaseSize \<Rightarrow> websocket_parse_size sock buf m_websockets_max_size
      | WebSocketPhaseMask \<Rightarrow> (True, websocket_parse_mask cd sock buf)
      | WebSocketPhasePayload \<Rightarrow> websocket_parse_payload cd sock buf (length buf))"

text \<open>
  \<^verbatim>\<open>ProtocolWebSocket::readyRead(Socket *sock, QIODevice *io)\<close>: the \<^verbatim>\<open>Q_FOREVER\<close> loop. The
  size of the scratch buffer, \<^verbatim>\<open>m_postBufferSize\<close>, and the maximum message size are
  configuration. The result is \<open>None\<close> when the loop does not end.
\<close>

partial_function (option) readyRead ::
  "codec \<Rightarrow> nat \<Rightarrow> 32 word \<Rightarrow> sock \<Rightarrow> iodev \<Rightarrow> (sock \<times> iodev) option" where
  "readyRead cd m_postBufferSize m_websockets_max_size sock io =
     (if pending io = [] \<or> websocket_need sock = 0 \<or>
         (length (pending io) < unat (websocket_need sock) \<and>
          websocket_phase sock \<noteq> WebSocketPhasePayload)
      then Some (sock, io)
      else
        (let maxlen = min (websocket_need sock) (of_nat m_postBufferSize)
         in case io_read io (unat maxlen) of
              None \<Rightarrow> Some (connectionClose sock, io)
            | Some (buf, io') \<Rightarrow>
                (case readyRead_switch cd m_websockets_max_size sock buf of
                   (ok, sock') \<Rightarrow>
                     if ok then readyRead cd m_postBufferSize m_websockets_max_size sock' io'
                     else Some (sock', io'))))"

declare readyRead.simps [code]

text \<open>
  The transport: each chunk that arrives is added to the device and \<^verbatim>\<open>readyRead\<close> is called,
  unless the connection has been closed.
\<close>

fun feed ::
  "codec \<Rightarrow> nat \<Rightarrow> 32 word \<Rightarrow> sock \<Rightarrow> iodev \<Rightarrow> bytes list \<Rightarrow> (sock \<times> iodev) option" where
  "feed cd pbs mx sock io [] = Some (sock, io)"
| "feed cd pbs mx sock io (c # cs) =
     (let io1 = io\<lparr>pending := pending io @ c\<rparr>
      in if closed sock then feed cd pbs mx sock io1 cs
         else case readyRead cd pbs mx sock io1 of
                None \<Rightarrow> None
              | Some (sock', io') \<Rightarrow> feed cd pbs mx sock' io' cs)"

subsection \<open>Well-formed frame states\<close>

text \<open>
  What every state the engine reaches satisfies: a header needs 2 bytes, an extended
  length 2 or 8 according to the 7-bit length, a mask 4, and while a payload is read the
  needed bytes are exactly those the declared length still misses.
\<close>

definition frame_state_ok :: "sock \<Rightarrow> bool" where
  "frame_state_ok sock =
     (case websocket_phase sock of
        WebSocketPhaseHeaders \<Rightarrow> websocket_need sock = 2
      | WebSocketPhaseSize \<Rightarrow>
          (websocket_payload_size sock = 126 \<and> websocket_need sock = 2) \<or>
          (websocket_payload_size sock = 127 \<and> websocket_need sock = 8)
      | WebSocketPhaseMask \<Rightarrow>
          websocket_need sock = 4 \<and> unat (websocket_payload_size sock) < 2 ^ 32
      | WebSocketPhasePayload \<Rightarrow>
          length (websocket_payload sock) < unat (websocket_payload_size sock) \<and>
          unat (websocket_need sock) + length (websocket_payload sock) =
            unat (websocket_payload_size sock))"

text \<open>
  Whether the engine, given the bytes \<open>bs\<close> in one read, has closed the connection when
  it returns.
\<close>

definition closes_after ::
  "codec \<Rightarrow> nat \<Rightarrow> 32 word \<Rightarrow> sock \<Rightarrow> iodev \<Rightarrow> bytes \<Rightarrow> bool" where
  "closes_after cd pbs mx sock io bs =
     (case readyRead cd pbs mx sock (io\<lparr>pending := pending io @ bs\<rparr>) of
        None \<Rightarrow> False
      | Some (sock', io') \<Rightarrow> closed sock')"

text \<open>
  The test at the head of the loop of \<^verbatim>\<open>readyRead\<close>: no byte is available, none is
  needed, or fewer than needed are available outside the payload phase.
\<close>

definition stops :: "sock \<Rightarrow> iodev \<Rightarrow> bool" where
  "stops sock io = (pending io = [] \<or> websocket_need sock = 0 \<or>
         (length (pending io) < unat (websocket_need sock) \<and>
          websocket_phase sock \<noteq> WebSocketPhasePayload))"

subsection \<open>Concrete collaborators for closed examples\<close>

text \<open>
  An instance of the codec parameter, used only to evaluate the model at concrete inputs:
  UTF-8 for the Basic Multilingual Plane. A byte that starts no sequence, or a sequence
  whose continuation byte is wrong, gives U+FFFD and counts as one invalid character; a
  sequence cut off by the end of the input is left undecoded and its bytes are counted
  as remaining.
\<close>

definition is_cont :: "byte \<Rightarrow> bool" where
  "is_cont c = (c AND 0xC0 = 0x80)"

fun utf8_decode :: "bytes \<Rightarrow> qstring \<times> nat \<times> nat" where
  "utf8_decode [] = ([], 0, 0)"
| "utf8_decode (b # bs) =
     (if b < 0x80 then
        (case utf8_decode bs of (t, i, r) \<Rightarrow> (ucast b # t, i, r))
      else if 0xC2 \<le> b \<and> b \<le> 0xDF then
        (case bs of
           [] \<Rightarrow> ([], 0, 1)
         | c # cs \<Rightarrow>
             if is_cont c then
               (case utf8_decode cs of (t, i, r) \<Rightarrow>
                  ((push_bit 6 (ucast (b AND 0x1F)) OR ucast (c AND 0x3F)) # t, i, r))
             else (case utf8_decode bs of (t, i, r) \<Rightarrow> (0xFFFD # t, Suc i, r)))
      else if 0xE0 \<le> b \<and> b \<le> 0xEF then
        (case bs of
           [] \<Rightarrow> ([], 0, 1)
         | c # cs \<Rightarrow>
             if \<not> is_cont c then
               (case utf8_decode bs of (t, i, r) \<Rightarrow> (0xFFFD # t, Suc i, r))
             else
               (case cs of
                  [] \<Rightarrow> ([], 0, 2)
                | d # ds \<Rightarrow>
                    if is_cont d then
                      (case utf8_decode ds of (t, i, r) \<Rightarrow>
                         ((push_bit 12 (ucast (b AND 0x0F)) OR
                           push_bit 6 (ucast (c AND 0x3F)) OR ucast (d AND 0x3F)) # t, i, r))
                    else (case utf8_decode bs of (t, i, r) \<Rightarrow> (0xFFFD # t, Suc i, r))))
      else (case utf8_decode bs of (t, i, r) \<Rightarrow> (0xFFFD # t, Suc i, r)))"

fun utf8_encode :: "qstring \<Rightarrow> bytes" where
  "utf8_encode [] = []"
| "utf8_encode (u # us) =
     (if u < 0x80 then [ucast u]
      else if u < 0x800 then
        [0xC0 OR ucast (drop_bit 6 u), 0x80 OR ucast (u AND 0x3F)]
      else
        [0xE0 OR ucast (drop_bit 12 u), 0x80 OR ucast (drop_bit 6 u AND 0x3F),
         0x80 OR ucast (u AND 0x3F)])
     @ utf8_encode us"

definition bmp_utf8_codec :: codec where
  "bmp_utf8_codec = \<lparr>toUnicode = utf8_decode, toUtf8 = utf8_encode\<rparr>"

text \<open>
  Modelled from the spec: the frame state as the handshake (not among the sources) leaves
  it, awaiting a header of 2 bytes, with empty buffers and no continuation open.
\<close>

definition sock_init :: sock where
  "sock_init =
     \<lparr>websocket_need = 2, websocket_phase = WebSocketPhaseHeaders,
      websocket_finn_opcode = 0, websocket_payload_size = 0,
      websocket_continue_opcode = 0, websocket_mask = 0,
      websocket_start_of_frame = 0, websocket_message = [], websocket_payload = [],
      trace = []\<rparr>"

section \<open>Properties\<close>

subsection \<open>Words and bytes\<close>

lemma and_ff_take: "(c :: 'a::len word) AND 0xff = take_bit 8 c"
  by (simp add: take_bit_eq_mask mask_eq_exp_minus_1)

lemma ucast_and_ff16: "(ucast (c AND 0xff :: 16 word) :: byte) = ucast c"
  unfolding and_ff_take by (rule bit_word_eqI) (simp add: bit_simps)

lemma ucast_and_ff32: "(ucast (c AND 0xff :: 32 word) :: byte) = ucast c"
  unfolding and_ff_take by (rule bit_word_eqI) (simp add: bit_simps)

lemma ucast_and_ff64: "(ucast (c AND 0xff :: 64 word) :: byte) = ucast c"
  unfolding and_ff_take by (rule bit_word_eqI) (simp add: bit_simps)

lemma drop7: "(drop_bit 7 (b :: byte) \<noteq> 0) = bit b 7"
proof -
  have lt: "unat b < 256" using unsigned_less[of b] by simp
  have a: "unat (drop_bit 7 b) = unat b div 128"
    by (simp add: drop_bit_eq_div unat_div_distrib)
  have b: "bit b 7 = odd (unat b div 128)"
    using bit_unsigned_iff[of b 7, where 'a=nat] by (simp add: bit_iff_odd)
  have "(drop_bit 7 b \<noteq> 0) = (unat (drop_bit 7 b) \<noteq> 0)"
    by (simp add: unsigned_eq_0_iff)
  also have "\<dots> = odd (unat b div 128)"
  proof -
    have "unat b div 128 = 0 \<or> unat b div 128 = 1" using lt by linarith
    then show ?thesis unfolding a by auto
  qed
  finally show ?thesis using b by simp
qed

lemma and80: "((b :: byte) AND 0x80 \<noteq> 0) = bit b 7"
  using bit_iff_and_push_bit_not_eq_0[of b 7] by simp

lemma and70: "((b :: byte) AND 0x70 \<noteq> 0) = (bit b 4 \<or> bit b 5 \<or> bit b 6)"
proof -
  have e: "(0x70 :: byte) = push_bit 4 1 OR push_bit 5 1 OR push_bit 6 1" by simp
  have "(b AND 0x70 = 0) =
        (b AND push_bit 4 1 = 0 \<and> b AND push_bit 5 1 = 0 \<and> b AND push_bit 6 1 = 0)"
    unfolding e by (simp only: bit.conj_disj_distrib or_eq_0_iff conj_assoc)
  then show ?thesis
    by (simp only: bit_iff_and_push_bit_not_eq_0[of b]) blast
qed

lemma unat_ucast_byte64: "unat (ucast (b :: byte) :: 64 word) = unat b"
  by (simp add: unsigned_ucast_eq take_bit_nat_eq_self_iff)
     (rule order_less_trans[OF unsigned_less], simp)

lemma mask_byte_load32: "k < 4 \<Longrightarrow> mask_byte (load32 buf) k = buf ! k"
proof -
  assume "k < 4"
  then consider "k = 0" | "k = 1" | "k = 2" | "k = 3" by linarith
  then show ?thesis
  proof cases
    case 1
    then show ?thesis
      by (simp add: mask_byte_def load32_def) (rule bit_word_eqI, simp add: bit_simps)
  next
    case 2
    then show ?thesis
      by (simp add: mask_byte_def load32_def)
         (rule bit_word_eqI, auto simp add: bit_simps dest: bit_imp_le_length)
  next
    case 3
    then show ?thesis
      by (simp add: mask_byte_def load32_def)
         (rule bit_word_eqI, auto simp add: bit_simps dest: bit_imp_le_length)
  next
    case 4
    then show ?thesis
      by (simp add: mask_byte_def load32_def)
         (rule bit_word_eqI, auto simp add: bit_simps dest: bit_imp_le_length)
  qed
qed

subsection \<open>Unmasking\<close>

lemma unmask_length [simp]: "length (unmask m k xs) = length xs"
  by (induction xs arbitrary: k) simp_all

lemma unmask_append: "unmask m k (xs @ ys) = unmask m k xs @ unmask m (k + length xs) ys"
  by (induction xs arbitrary: k) simp_all

lemma unmask_nth:
  "i < length xs \<Longrightarrow> unmask m k xs ! i = xs ! i XOR mask_byte m ((k + i) mod 4)"
  by (induction xs arbitrary: k i) (auto simp: nth_Cons split: nat.splits)

lemma unmask_unmask: "unmask m k (unmask m k xs) = xs"
  by (induction xs arbitrary: k) (simp_all add: xor.assoc)

text \<open>
  Claim C6. The XOR the engine applies to the payload is an involution: whatever the
  bytes \<open>P\<close> and the four key bytes \<open>K\<close>, and wherever in the key the run starts (\<open>k\<close>
  bytes of the frame already unmasked; \<open>k = 0\<close> for a whole payload), applying it twice
  gives \<open>P\<close> back. The transformation is the one the claim names: it keeps the length,
  and byte \<open>i\<close> becomes \<open>P ! i XOR K ! ((k + i) mod 4)\<close>, where the key is the word
  \<^verbatim>\<open>websocket_parse_mask\<close> loads from the four mask bytes.
\<close>

theorem C6_unmask_involutive:
  "unmask (load32 K) k (unmask (load32 K) k P) = P \<and>
   length (unmask (load32 K) k P) = length P \<and>
   (\<forall>i < length P. unmask (load32 K) k P ! i = P ! i XOR K ! ((k + i) mod 4))"
  by (simp add: unmask_unmask unmask_nth mask_byte_load32)

theorem C6_unmask_involutive_witness:
  "unmask (load32 [1, 2, 3, 4]) 0 (unmask (load32 [1, 2, 3, 4]) 0 [0x10, 0x20, 0x30, 0x40, 0x50])
     = [0x10, 0x20, 0x30, 0x40, 0x50] \<and>
   unmask (load32 [1, 2, 3, 4]) 0 [0x10, 0x20, 0x30, 0x40, 0x50] ! 4 = 0x51"
  using C6_unmask_involutive [of "[1, 2, 3, 4]" 0 "[0x10, 0x20, 0x30, 0x40, 0x50]"]
  by (simp add: mask_byte_load32)

subsection \<open>The header phase\<close>

text \<open>
  Claim C1. Whatever the two header bytes and the frame state, \<^verbatim>\<open>websocket_parse_header\<close>
  returns false exactly when one of the six violations holds: the mask bit (bit 7 of byte
  2) is clear; the opcode is Ping (9) or Close (8) and the 7-bit length exceeds 125; one
  of RSV1-RSV3 (bits 4-6 of byte 1) is set; the opcode is in 3-7 or 11-15; FIN (bit 7 of
  byte 1) is clear and the opcode is none of Text, Binary, Continue; a continuation is
  open and the opcode is Text or Binary. On rejection the close reply for 1002 is written
  and the connection closed, and apart from the recorded first byte and 7-bit length the
  state is the one before: phase and needed bytes do not move. Otherwise nothing is
  written or closed and the state moves on to the length phase (2 or 8 bytes) or to the
  mask phase (4 bytes).
\<close>

theorem C1_header_validation:
  fixes cd :: codec and sock :: sock and buf :: bytes
  defines "b1 \<equiv> buf ! 0" and "b2 \<equiv> buf ! 1"
  defines "opc \<equiv> unat (b1 AND 0xf)" and "len7 \<equiv> unat (b2 AND 0x7f)"
  defines "rejected \<equiv>
      \<not> bit b2 7 \<or>
      ((opc = 9 \<or> opc = 8) \<and> 125 < len7) \<or>
      (bit b1 4 \<or> bit b1 5 \<or> bit b1 6) \<or>
      ((3 \<le> opc \<and> opc \<le> 7) \<or> (11 \<le> opc \<and> opc \<le> 15)) \<or>
      (\<not> bit b1 7 \<and> opc \<noteq> 1 \<and> opc \<noteq> 2 \<and> opc \<noteq> 0) \<or>
      (websocket_continue_opcode sock \<noteq> 0 \<and> (opc = 1 \<or> opc = 2))"
  defines "r \<equiv> websocket_parse_header cd sock buf"
  shows "fst r = (\<not> rejected) \<and>
         (if rejected
          then snd r = sock\<lparr>websocket_finn_opcode := b1,
                             websocket_payload_size := of_nat len7,
                             trace := trace sock @
                               [IoWrite (createWebsocketCloseReply cd [] 1002), ConnectionClose]\<rparr>
          else trace (snd r) = trace sock \<and>
               (websocket_phase (snd r), websocket_need (snd r)) =
                 (if len7 = 126 then (WebSocketPhaseSize, 2)
                  else if len7 = 127 then (WebSocketPhaseSize, 8)
                  else (WebSocketPhaseMask, 4)))"
proof -
  have o9: "(b1 AND 0xf = 9) = (opc = 9)" and o8: "(b1 AND 0xf = 8) = (opc = 8)"
    and o1: "(b1 AND 0xf = 1) = (opc = 1)" and o2: "(b1 AND 0xf = 2) = (opc = 2)"
    and o0: "(b1 AND 0xf = 0) = (opc = 0)"
    unfolding opc_def by (simp_all add: word_unat_eq_iff)
  have l3: "(3 \<le> b1 AND 0xf) = (3 \<le> opc)" and l7: "(b1 AND 0xf \<le> 7) = (opc \<le> 7)"
    and lB: "(0xB \<le> b1 AND 0xf) = (11 \<le> opc)" and lF: "(b1 AND 0xf \<le> 0xF) = (opc \<le> 15)"
    unfolding opc_def by (simp_all add: word_le_nat_alt)
  have n1: "(125 < (ucast (b2 AND 0x7f) :: 64 word)) = (125 < len7)"
    unfolding len7_def by (simp add: word_less_nat_alt unat_ucast_byte64)
  have n2: "((ucast (b2 AND 0x7f) :: 64 word) = 126) = (len7 = 126)"
    and n3: "((ucast (b2 AND 0x7f) :: 64 word) = 127) = (len7 = 127)"
    unfolding len7_def by (simp_all add: word_unat_eq_iff unat_ucast_byte64)
  have n4: "(ucast (b2 AND 0x7f) :: 64 word) = of_nat len7"
    unfolding len7_def by simp
  note conv = o9 o8 o1 o2 o0 l3 l7 lB lF n1 n2 n3 drop7 and80 and70
  define sock1 where
    "sock1 = sock\<lparr>websocket_finn_opcode := b1,
                   websocket_payload_size := ucast (b2 AND 0x7f)\<rparr>"
  define code where "code \<equiv> \<not> drop_bit 7 b2 \<noteq> 0 \<or>
            ((b1 AND 0xf = OpCodePing \<or> b1 AND 0xf = OpCodeClose) \<and>
               websocket_payload_size sock1 > 125) \<or>
            b1 AND 0x70 \<noteq> 0 \<or>
            ((b1 AND 0xf \<ge> OpCodeReserved3 \<and> b1 AND 0xf \<le> OpCodeReserved7) \<or>
             (b1 AND 0xf \<ge> OpCodeReservedB \<and> b1 AND 0xf \<le> OpCodeReservedF)) \<or>
            (\<not> b1 AND 0x80 \<noteq> 0 \<and> b1 AND 0xf \<noteq> OpCodeText \<and>
               b1 AND 0xf \<noteq> OpCodeBinary \<and> b1 AND 0xf \<noteq> OpCodeContinue) \<or>
            (websocket_continue_opcode sock1 \<noteq> 0 \<and>
               (b1 AND 0xf = OpCodeText \<or> b1 AND 0xf = OpCodeBinary))"
  have code: "code = rejected"
    unfolding code_def rejected_def sock1_def OpCode_defs
    by (simp only: conv) (simp add: n1)
  have r: "r =
     (if rejected
      then (False,
            connectionClose (emit (IoWrite (createWebsocketCloseReply cd [] 1002)) sock1))
      else
        (let sock2 =
               (if b1 AND 0xf = OpCodeText \<or> b1 AND 0xf = OpCodeBinary then
                  (let s = sock1\<lparr>websocket_message := [], websocket_start_of_frame := 0\<rparr>
                   in if \<not> b1 AND 0x80 \<noteq> 0
                      then s\<lparr>websocket_continue_opcode := b1 AND 0xf\<rparr> else s)
                else sock1)
         in if websocket_payload_size sock2 = 126 then
              (True, sock2\<lparr>websocket_need := 2, websocket_phase := WebSocketPhaseSize\<rparr>)
            else if websocket_payload_size sock2 = 127 then
              (True, sock2\<lparr>websocket_need := 8, websocket_phase := WebSocketPhaseSize\<rparr>)
            else
              (True, sock2\<lparr>websocket_need := 4, websocket_phase := WebSocketPhaseMask\<rparr>)))"
    unfolding code[symmetric] code_def r_def websocket_parse_header_def Let_def sock1_def
      b1_def b2_def
    by (rule refl)
  show ?thesis
  proof (cases rejected)
    case True
    then show ?thesis
      unfolding r by (simp add: sock1_def n4 emit_def connectionClose_def)
  next
    case False
    then show ?thesis
      unfolding r by (simp add: sock1_def n2 n3 Let_def)
  qed
qed

text \<open>
  Two headers on a fresh connection: a masked Ping announcing an extended length (126) is
  rejected with the 1002 reply; a masked final Text frame of 5 bytes is accepted and the
  mask is awaited.
\<close>

theorem C1_header_validation_witness:
  "websocket_parse_header bmp_utf8_codec sock_init [0x89, 0xFE] =
     (False, sock_init\<lparr>websocket_finn_opcode := 0x89, websocket_payload_size := 126,
                       trace := [IoWrite [0x88, 0x02, 0x03, 0xEA], ConnectionClose]\<rparr>) \<and>
   fst (websocket_parse_header bmp_utf8_codec sock_init [0x81, 0x85]) \<and>
   websocket_phase (snd (websocket_parse_header bmp_utf8_codec sock_init [0x81, 0x85])) =
     WebSocketPhaseMask"
proof -
  have reply: "createWebsocketCloseReply bmp_utf8_codec [] 1002 = [0x88, 0x02, 0x03, 0xEA]"
    by (simp add: bmp_utf8_codec_def createWebsocketCloseReply_def createWebsocketHeader_def
          OpCode_defs)
  have a: "unat ((0x89 :: byte) AND 0xf) = 9" "unat ((0xFE :: byte) AND 0x7f) = 126"
    "unat ((0x81 :: byte) AND 0xf) = 1" "unat ((0x85 :: byte) AND 0x7f) = 5"
    by simp_all
  show ?thesis
    using C1_header_validation [where buf = "[0x89, 0xFE]" and sock = sock_init and cd = bmp_utf8_codec]
      C1_header_validation [where buf = "[0x81, 0x85]" and sock = sock_init and cd = bmp_utf8_codec]
    by (simp add: a reply prod_eq_iff) (simp add: sock_init_def)
qed

subsection \<open>The extended length\<close>

lemma load32_byte0: "(ucast (load32 buf) :: byte) = buf ! 0"
  by (rule bit_word_eqI) (simp add: load32_def bit_simps)

lemma load32_byte1: "(ucast (drop_bit 8 (load32 buf)) :: byte) = buf ! 1"
  by (rule bit_word_eqI) (auto simp add: load32_def bit_simps dest: bit_imp_le_length)

lemma ws_be16_eq: "ws_be16 buf = store16 (buf ! 1) (buf ! 0)"
  unfolding ws_be16_def Let_def ucast_and_ff32 load32_byte0 load32_byte1 by (rule refl)

lemma load64_byte0: "(ucast (load64 buf) :: byte) = buf ! 0"
  by (rule bit_word_eqI) (simp add: load64_def bit_simps)

lemma load64_byte1: "(ucast (drop_bit 8 (load64 buf)) :: byte) = buf ! 1"
  by (rule bit_word_eqI) (auto simp add: load64_def bit_simps dest: bit_imp_le_length)

lemma load64_byte2: "(ucast (drop_bit 16 (load64 buf)) :: byte) = buf ! 2"
  by (rule bit_word_eqI) (auto simp add: load64_def bit_simps dest: bit_imp_le_length)

lemma load64_byte3: "(ucast (drop_bit 24 (load64 buf)) :: byte) = buf ! 3"
  by (rule bit_word_eqI) (auto simp add: load64_def bit_simps dest: bit_imp_le_length)

lemma load64_byte4: "(ucast (drop_bit 32 (load64 buf)) :: byte) = buf ! 4"
  by (rule bit_word_eqI) (auto simp add: load64_def bit_simps dest: bit_imp_le_length)

lemma load64_byte5: "(ucast (drop_bit 40 (load64 buf)) :: byte) = buf ! 5"
  by (rule bit_word_eqI) (auto simp add: load64_def bit_simps dest: bit_imp_le_length)

lemma load64_byte6: "(ucast (drop_bit 48 (load64 buf)) :: byte) = buf ! 6"
  by (rule bit_word_eqI) (auto simp add: load64_def bit_simps dest: bit_imp_le_length)

lemma load64_byte7: "(ucast (drop_bit 56 (load64 buf)) :: byte) = buf ! 7"
  by (rule bit_word_eqI) (auto simp add: load64_def bit_simps dest: bit_imp_le_length)

text \<open>
  On the little-endian machine the two readers return the big-endian value of the first
  two and the first eight bytes; the two extra bytes \<^verbatim>\<open>ws_be16\<close> loads do not matter.
\<close>

lemma ws_be64_eq:
  "ws_be64 buf =
     store64 (buf ! 7) (buf ! 6) (buf ! 5) (buf ! 4) (buf ! 3) (buf ! 2) (buf ! 1) (buf ! 0)"
  unfolding ws_be64_def Let_def ucast_and_ff64 load64_byte0 load64_byte1 load64_byte2
    load64_byte3 load64_byte4 load64_byte5 load64_byte6 load64_byte7
  by (rule refl)

lemma uint_scast_max:
  assumes "0 \<le> sint (mx :: 32 word)"
  shows "uint (scast mx :: 64 word) = sint mx"
proof -
  have "sint (scast mx :: 64 word) = sint mx"
    by (rule sint_up_scast) (simp add: is_up)
  moreover have "sint mx < 2 ^ 31" using sint_lt[of mx] by simp
  ultimately show ?thesis
    using assms uint_sint[of "scast mx :: 64 word"]
    by (simp add: take_bit_int_eq_self)
qed

lemma sint_max_size:
  assumes "0 \<le> sint kib" and "sint kib * 1024 < 2 ^ 31"
  shows "sint (ProtocolWebSocket_max_size kib) = sint kib * 1024"
proof -
  have "sint (kib * 1024) = signed_take_bit 31 (sint kib * sint (1024 :: 32 word))"
    by (simp add: sint_word_ariths)
  also have "sint (1024 :: 32 word) = 1024" by simp
  also have "signed_take_bit 31 (sint kib * 1024) = sint kib * 1024"
    using assms by (simp add: signed_take_bit_int_eq_self)
  finally show ?thesis by (simp add: ProtocolWebSocket_max_size_def)
qed

lemma parse_size_cases:
  assumes "websocket_payload_size sock = 126 \<or> websocket_payload_size sock = 127"
    and "0 \<le> sint mx"
  shows "websocket_parse_size sock buf mx =
     (if sint mx <
           uint (if websocket_payload_size sock = 126 then ucast (ws_be16 buf) else ws_be64 buf)
      then (False, sock\<lparr>trace := trace sock @ [ConnectionClose]\<rparr>)
      else (True, sock\<lparr>websocket_payload_size :=
                         (if websocket_payload_size sock = 126 then ucast (ws_be16 buf)
                          else ws_be64 buf),
                       websocket_need := 4, websocket_phase := WebSocketPhaseMask\<rparr>))"
  using assms(1)
  by (auto simp add: websocket_parse_size_def word_less_alt
        uint_scast_max[OF assms(2)] connectionClose_def emit_def)

text \<open>
  Claim C7, amended. A frame whose 7-bit length was 126 or 127 is in the extended-length
  phase. The maximum is configured in KiB and kept in bytes in an \<^verbatim>\<open>int\<close>; provided the
  \<open>kib\<close> KiB configured are not negative and their byte count \<open>1024 * kib\<close> fits the
  \<^verbatim>\<open>int\<close> (is below \<open>2 ^ 31\<close>), the length the engine decodes from the 2 or 8 bytes is
  compared with \<open>1024 * kib\<close>. Above it, the connection is closed and nothing else
  happens: no write, and the payload buffer and every other field are as before.
  Otherwise the length is recorded and the state is the mask phase needing 4 bytes.
\<close>

theorem C7_size_phase:
  fixes sock :: sock and buf :: bytes and kib :: "32 word"
  assumes "websocket_payload_size sock = 126 \<or> websocket_payload_size sock = 127"
    and "0 \<le> sint kib" and "sint kib * 1024 < 2 ^ 31"
  defines "declared \<equiv>
     (if websocket_payload_size sock = 126 then ucast (ws_be16 buf) else ws_be64 buf)"
  shows "websocket_parse_size sock buf (ProtocolWebSocket_max_size kib) =
     (if sint kib * 1024 < uint declared
      then (False, sock\<lparr>trace := trace sock @ [ConnectionClose]\<rparr>)
      else (True, sock\<lparr>websocket_payload_size := declared, websocket_need := 4,
                       websocket_phase := WebSocketPhaseMask\<rparr>))"
proof -
  have mx: "sint (ProtocolWebSocket_max_size kib) = sint kib * 1024"
    using assms(2,3) by (rule sint_max_size)
  then have "0 \<le> sint (ProtocolWebSocket_max_size kib)" using assms(2) by simp
  from parse_size_cases[OF assms(1) this] show ?thesis
    unfolding declared_def mx .
qed

text \<open>
  With 1 KiB configured, a 16-bit length of 1025 closes the connection and one of 1024
  is accepted.
\<close>

theorem C7_size_phase_witness:
  "websocket_parse_size (sock_init\<lparr>websocket_payload_size := 126\<rparr>) [0x04, 0x01]
       (ProtocolWebSocket_max_size 1) =
     (False, sock_init\<lparr>websocket_payload_size := 126, trace := [ConnectionClose]\<rparr>) \<and>
   websocket_parse_size (sock_init\<lparr>websocket_payload_size := 126\<rparr>) [0x04, 0x00]
       (ProtocolWebSocket_max_size 1) =
     (True, sock_init\<lparr>websocket_payload_size := 1024, websocket_need := 4,
                      websocket_phase := WebSocketPhaseMask\<rparr>)"
  using C7_size_phase [where sock = "sock_init\<lparr>websocket_payload_size := 126\<rparr>"
      and buf = "[0x04, 0x01]" and kib = 1]
    C7_size_phase [where sock = "sock_init\<lparr>websocket_payload_size := 126\<rparr>"
      and buf = "[0x04, 0x00]" and kib = 1]
  by (simp add: ws_be16_eq store16_def sock_init_def)

text \<open>
  Without the condition on the configured maximum the claim fails. The byte count is
  computed in the \<^verbatim>\<open>int\<close>, and the comparison extends its sign to 64 bits. With 3 GiB
  configured (3145728 KiB) the \<^verbatim>\<open>int\<close> holds \<open>- 1073741824\<close>, which the comparison reads
  as a length near \<open>2 ^ 64\<close>: a frame declaring 8 GiB, above the configured maximum, is
  accepted. With 4 GiB configured (4194304 KiB) the \<^verbatim>\<open>int\<close> holds 0: a frame declaring
  126 bytes, far below the configured maximum, closes the connection.
\<close>

theorem C7_size_phase_counterexample:
  "sint (ProtocolWebSocket_max_size 3145728) = - 1073741824 \<and>
   websocket_parse_size (sock_init\<lparr>websocket_payload_size := 127\<rparr>)
       [0, 0, 0, 2, 0, 0, 0, 0] (ProtocolWebSocket_max_size 3145728) =
     (True, sock_init\<lparr>websocket_payload_size := 8589934592, websocket_need := 4,
                      websocket_phase := WebSocketPhaseMask\<rparr>) \<and>
   ProtocolWebSocket_max_size 4194304 = 0 \<and>
   websocket_parse_size (sock_init\<lparr>websocket_payload_size := 126\<rparr>) [0x00, 0x7E]
       (ProtocolWebSocket_max_size 4194304) =
     (False, sock_init\<lparr>websocket_payload_size := 126, trace := [ConnectionClose]\<rparr>)"
proof -
  have a: "sint (ProtocolWebSocket_max_size 3145728) = - 1073741824"
    by (simp add: ProtocolWebSocket_max_size_def)
  have b: "(scast (ProtocolWebSocket_max_size 3145728) :: 64 word) = 0xFFFFFFFFC0000000"
    by (simp add: ProtocolWebSocket_max_size_def)
  have c: "ProtocolWebSocket_max_size 4194304 = 0"
    by (simp add: ProtocolWebSocket_max_size_def)
  show ?thesis
    by (simp add: a)
       (simp add: websocket_parse_size_def ws_be16_eq ws_be64_eq store16_def store64_def b c
          sock_init_def connectionClose_def emit_def)
qed

subsection \<open>Close frames\<close>

text \<open>The check of the close code, with the codes read as numbers.\<close>

lemma send_closed_check_nat:
  "send_closed_check c r i m p =
     (if i \<noteq> 0 \<or> m \<noteq> 0 then ([], 1002)
      else if 3000 \<le> unat c \<and> unat c \<le> 4999 then (r, c)
      else if unat c = 1005 then (if p = [] then (r, 1000) else (r, 1002))
      else if unat c \<in> {1000, 1001, 1002, 1003, 1007, 1008, 1009, 1010, 1011} then (r, c)
      else ([], 1002))"
proof -
  have lt: "(c < 3000) = (unat c < 3000)" and gt: "(4999 < c) = (4999 < unat c)"
    by (simp_all add: word_less_nat_alt)
  have eqs: "(c = 1000) = (unat c = 1000)" "(c = 1001) = (unat c = 1001)"
    "(c = 1002) = (unat c = 1002)" "(c = 1003) = (unat c = 1003)"
    "(c = 1005) = (unat c = 1005)" "(c = 1007) = (unat c = 1007)"
    "(c = 1008) = (unat c = 1008)" "(c = 1009) = (unat c = 1009)"
    "(c = 1010) = (unat c = 1010)" "(c = 1011) = (unat c = 1011)"
    by (simp_all add: word_unat_eq_iff)
  show ?thesis
  proof (cases "i \<noteq> 0 \<or> m \<noteq> 0")
    case True
    then show ?thesis by (simp add: send_closed_check_def CloseCode_defs)
  next
    case ok: False
    show ?thesis
    proof (cases "3000 \<le> unat c \<and> unat c \<le> 4999")
      case True
      then show ?thesis using ok
        by (simp add: send_closed_check_def CloseCode_defs lt gt not_less)
    next
      case out: False
      then have o: "unat c < 3000 \<or> 4999 < unat c" by auto
      show ?thesis
      proof (cases "unat c = 1005")
        case True
        then show ?thesis using ok
          by (simp add: send_closed_check_def CloseCode_defs lt gt eqs)
      next
        case n5: False
        show ?thesis
        proof (cases "unat c \<in> {1000, 1001, 1002, 1003, 1007, 1008, 1009, 1010, 1011}")
          case True
          then show ?thesis using ok out n5 o
            by (auto simp add: send_closed_check_def CloseCode_defs lt gt eqs)
        next
          case False
          then show ?thesis using ok out n5 o
            by (simp add: send_closed_check_def CloseCode_defs lt gt eqs)
        qed
      qed
    qed
  qed
qed


text \<open>What \<^verbatim>\<open>send_closed\<close> does, as one update of the trace.\<close>

lemma send_closed_eq:
  "send_closed cd sock =
     (let p = websocket_payload sock;
          d = toUnicode cd (drop 2 p);
          c0 = (if 2 \<le> length p then store16 (p ! 1) (p ! 0) else CloseCodeMissingStatusCode);
          r0 = (if 2 \<le> length p then fst d else []);
          i = (if 2 \<le> length p then fst (snd d) else 0);
          m = (if 2 \<le> length p then snd (snd d) else 0);
          res = send_closed_check c0 r0 i m p
      in sock\<lparr>trace := trace sock @
           [WebSocketClosed c0 r0,
            IoWrite (createWebsocketCloseReply cd (fst res) (snd res)),
            ConnectionClose]\<rparr>)"
  unfolding send_closed_def ws_be16_eq
  by (simp add: Let_def emit_def connectionClose_def split: prod.split)

text \<open>
  Claim C4. For a completed Close frame with payload \<open>p\<close>, \<^verbatim>\<open>send_closed\<close> notifies the
  session, writes one close reply and closes the connection. The reply is built from the
  code and reason resolved in this order: an empty payload gives the normal closure 1000
  and no reason; a payload of one byte gives 1002; otherwise the code \<open>c0\<close> is the
  big-endian value of the first two bytes and the reason the decoding of the rest, and a
  reason that fails to decode gives 1002 and no reason; the placeholder 1005 read from the
  payload gives 1002; a code in 3000-4999 is kept, with the reason; so is a code of the
  legal set 1000-1003, 1007-1011; any other code gives 1002 and no reason.
\<close>

theorem C4_close_code_resolution:
  fixes cd :: codec and sock :: sock
  defines "p \<equiv> websocket_payload sock"
  defines "c0 \<equiv> store16 (p ! 1) (p ! 0)"
  defines "r0 \<equiv> fst (toUnicode cd (drop 2 p))"
  defines "bad \<equiv> (fst (snd (toUnicode cd (drop 2 p))) \<noteq> 0 \<or>
                   snd (snd (toUnicode cd (drop 2 p))) \<noteq> 0)"
  defines "res \<equiv>
     (if p = [] then (1000, [])
      else if length p < 2 then (1002, [])
      else if bad then (1002, [])
      else if unat c0 = 1005 then (1002, r0)
      else if 3000 \<le> unat c0 \<and> unat c0 \<le> 4999 then (c0, r0)
      else if unat c0 \<in> {1000, 1001, 1002, 1003, 1007, 1008, 1009, 1010, 1011}
      then (c0, r0)
      else (1002, []))"
  shows "send_closed cd sock =
     sock\<lparr>trace := trace sock @
       [WebSocketClosed (if 2 \<le> length p then c0 else 1005) (if 2 \<le> length p then r0 else []),
        IoWrite (createWebsocketCloseReply cd (snd res) (fst res)),
        ConnectionClose]\<rparr>"
proof -
  consider (empty) "p = []" | (one) "length p = 1" | (two) "2 \<le> length p"
    by (cases p) (auto simp: Suc_le_eq)
  then show ?thesis
  proof cases
    case empty
    then show ?thesis
      unfolding res_def send_closed_eq p_def[symmetric]
      by (simp add: send_closed_check_nat CloseCode_defs)
  next
    case one
    then have "p \<noteq> []" "\<not> 2 \<le> length p" "length p < 2" by auto
    then show ?thesis
      unfolding res_def send_closed_eq p_def[symmetric]
      by (simp add: send_closed_check_nat CloseCode_defs)
  next
    case two
    then have ne: "p \<noteq> []" "\<not> length p < 2" by auto
    have chk: "send_closed_check c0 r0 (fst (snd (toUnicode cd (drop 2 p))))
                 (snd (snd (toUnicode cd (drop 2 p)))) p = (snd res, fst res)"
      unfolding send_closed_check_nat res_def bad_def[symmetric] using ne
      by (cases bad; cases "unat c0 = 1005"; cases "3000 \<le> unat c0 \<and> unat c0 \<le> 4999";
          cases "unat c0 \<in> {1000, 1001, 1002, 1003, 1007, 1008, 1009, 1010, 1011}") auto
    show ?thesis
      unfolding send_closed_eq p_def[symmetric] Let_def
      using two chk by (simp add: c0_def r0_def)
  qed
qed


text \<open>
  A Close frame carrying 1000 and the reason "bye" is echoed code and reason; one
  carrying the unassigned code 1004 is answered with 1002 and no reason.
\<close>

theorem C4_close_code_resolution_witness:
  "send_closed bmp_utf8_codec (sock_init\<lparr>websocket_payload := [0x03, 0xE8, 0x62, 0x79, 0x65]\<rparr>) =
     sock_init\<lparr>websocket_payload := [0x03, 0xE8, 0x62, 0x79, 0x65],
               trace := [WebSocketClosed 1000 [0x62, 0x79, 0x65],
                         IoWrite [0x88, 0x05, 0x03, 0xE8, 0x62, 0x79, 0x65],
                         ConnectionClose]\<rparr> \<and>
   send_closed bmp_utf8_codec (sock_init\<lparr>websocket_payload := [0x03, 0xEC]\<rparr>) =
     sock_init\<lparr>websocket_payload := [0x03, 0xEC],
               trace := [WebSocketClosed 1004 [],
                         IoWrite [0x88, 0x02, 0x03, 0xEA],
                         ConnectionClose]\<rparr>"
proof -
  have r1: "createWebsocketCloseReply bmp_utf8_codec [0x62, 0x79, 0x65] 1000 =
              [0x88, 0x05, 0x03, 0xE8, 0x62, 0x79, 0x65]"
    and r2: "createWebsocketCloseReply bmp_utf8_codec [] 1002 = [0x88, 0x02, 0x03, 0xEA]"
    by (simp_all add: bmp_utf8_codec_def createWebsocketCloseReply_def
          createWebsocketHeader_def OpCode_defs)
  have d1: "toUnicode bmp_utf8_codec [0x62, 0x79, 0x65] = ([0x62, 0x79, 0x65], 0, 0)"
    and d2: "toUnicode bmp_utf8_codec [] = ([], 0, 0)"
    by (simp_all add: bmp_utf8_codec_def)
  have c: "store16 0xE8 0x03 = 1000" "store16 0xEC 0x03 = 1004"
    by (simp_all add: store16_def)
  show ?thesis
    using C4_close_code_resolution
        [where cd = bmp_utf8_codec
           and sock = "sock_init\<lparr>websocket_payload := [0x03, 0xE8, 0x62, 0x79, 0x65]\<rparr>"]
      C4_close_code_resolution
        [where cd = bmp_utf8_codec and sock = "sock_init\<lparr>websocket_payload := [0x03, 0xEC]\<rparr>"]
    by (simp add: c d1 d2 r1 r2) (simp add: sock_init_def)
qed




subsection \<open>Steps of the read loop\<close>

lemma readyRead_stop:
  "stops sock io \<Longrightarrow> readyRead cd pbs mx sock io = Some (sock, io)"
  by (subst readyRead.simps) (simp add: stops_def)

lemma readyRead_fail:
  "\<not> stops sock io \<Longrightarrow> read_fails io \<Longrightarrow>
   readyRead cd pbs mx sock io = Some (connectionClose sock, io)"
  by (subst readyRead.simps, simp only: stops_def[symmetric], simp add: io_read_def)

lemma readyRead_step:
  "\<not> stops sock io \<Longrightarrow> \<not> read_fails io \<Longrightarrow>
   readyRead cd pbs mx sock io =
     (case readyRead_switch cd mx sock
             (take (unat (min (websocket_need sock) (of_nat pbs))) (pending io)) of
        (ok, sock') \<Rightarrow>
          if ok then readyRead cd pbs mx sock'
                       (io\<lparr>pending := drop (unat (min (websocket_need sock) (of_nat pbs)))
                                         (pending io)\<rparr>)
          else Some (sock',
                     io\<lparr>pending := drop (unat (min (websocket_need sock) (of_nat pbs)))
                                       (pending io)\<rparr>))"
  by (subst readyRead.simps, simp only: stops_def[symmetric], simp add: io_read_def Let_def)

lemma send_text_phase:
  "websocket_phase (snd (send_text cd s b)) = websocket_phase s \<and>
   websocket_need (snd (send_text cd s b)) = websocket_need s"
proof -
  obtain f i m where d: "toUnicode cd (send_text_payload
      (s\<lparr>websocket_message := websocket_message s @ websocket_payload s\<rparr>)
      (length (websocket_message s))) = (f, i, m)"
    using prod_cases3 by blast
  show ?thesis
    by (cases "i = 0 \<and> m = 0"; cases b; cases "websocket_finn_opcode s AND 0x80 = 0")
       (simp_all add: send_text_def Let_def d case_prod_beta emit_def connectionClose_def)
qed

lemma send_text_closed:
  "\<not> fst (send_text cd s b) \<Longrightarrow> closed (snd (send_text cd s b))"
proof -
  obtain f i m where d: "toUnicode cd (send_text_payload
      (s\<lparr>websocket_message := websocket_message s @ websocket_payload s\<rparr>)
      (length (websocket_message s))) = (f, i, m)"
    using prod_cases3 by blast
  show "\<not> fst (send_text cd s b) \<Longrightarrow> closed (snd (send_text cd s b))"
    by (cases "i = 0 \<and> m = 0"; cases b; cases "websocket_finn_opcode s AND 0x80 = 0")
       (auto simp add: send_text_def Let_def d case_prod_beta emit_def connectionClose_def
          closed_def split: if_splits)
qed

lemma send_binary_phase:
  "websocket_phase (send_binary s b) = websocket_phase s \<and>
   websocket_need (send_binary s b) = websocket_need s"
  by (simp add: send_binary_def Let_def emit_def)


lemma send_closed_phase:
  "websocket_phase (send_closed cd s) = websocket_phase s \<and>
   websocket_need (send_closed cd s) = websocket_need s \<and> closed (send_closed cd s)"
  by (simp add: send_closed_eq Let_def closed_def)

lemma send_pong_phase:
  "websocket_phase (send_pong s d) = websocket_phase s \<and>
   websocket_need (send_pong s d) = websocket_need s"
  by (simp add: send_pong_def emit_def)

lemma parse_payload_partial:
  assumes "length (websocket_payload s) + length (take len buf) < unat (websocket_payload_size s)"
  shows "websocket_parse_payload cd s buf len =
     (True, s\<lparr>websocket_payload := websocket_payload s @
                  unmask (websocket_mask s) (length (websocket_payload s)) (take len buf),
               websocket_need := websocket_need s - of_nat len\<rparr>)"
  using assms unfolding websocket_parse_payload_def Let_def by (simp del: length_take)

lemma parse_payload_complete_phase:
  assumes "unat (websocket_payload_size s) \<le> length (websocket_payload s) + length (take len buf)"
  shows "websocket_phase (snd (websocket_parse_payload cd s buf len)) = WebSocketPhaseHeaders \<and>
         websocket_need (snd (websocket_parse_payload cd s buf len)) = 2"
  using assms unfolding websocket_parse_payload_def Let_def
  by (simp add: not_less OpCode_defs send_text_phase send_binary_phase send_pong_phase
        send_closed_phase emit_def connectionClose_def del: length_take)

lemma closed_connectionClose: "closed (connectionClose s)"
  by (simp add: closed_def connectionClose_def emit_def)

lemma send_text_closed': "fst (send_text cd s b) \<or> closed (snd (send_text cd s b))"
  using send_text_closed by blast

lemma parse_payload_closed':
  "fst (websocket_parse_payload cd s buf len) \<or>
   closed (snd (websocket_parse_payload cd s buf len))"
  unfolding websocket_parse_payload_def Let_def
  by (simp add: OpCode_defs send_text_closed' send_closed_phase closed_connectionClose
        del: length_take)

lemma parse_payload_closed:
  "\<not> fst (websocket_parse_payload cd s buf len) \<Longrightarrow>
   closed (snd (websocket_parse_payload cd s buf len))"
  using parse_payload_closed' by blast

lemma parse_payload_merge:
  assumes "unat (websocket_payload_size s) \<le> length (websocket_payload s) + length a + length b"
  shows "websocket_parse_payload cd
           (s\<lparr>websocket_payload := websocket_payload s @
                  unmask (websocket_mask s) (length (websocket_payload s)) a,
               websocket_need := nd\<rparr>) b (length b) =
         websocket_parse_payload cd s (a @ b) (length a + length b)"
  using assms unfolding websocket_parse_payload_def Let_def
  by (simp add: unmask_append not_less)


lemma parse_header_ok_or_closed:
  "(fst (websocket_parse_header cd s buf) \<longrightarrow> frame_state_ok (snd (websocket_parse_header cd s buf))) \<and>
   (\<not> fst (websocket_parse_header cd s buf) \<longrightarrow> closed (snd (websocket_parse_header cd s buf)))"
proof -
  define b1 where "b1 = buf ! 0"
  define b2 where "b2 = buf ! 1"
  define sock1 where
    "sock1 = s\<lparr>websocket_finn_opcode := b1,
                   websocket_payload_size := ucast (b2 AND 0x7f)\<rparr>"
  define code where "code \<equiv> \<not> drop_bit 7 b2 \<noteq> 0 \<or>
            ((b1 AND 0xf = OpCodePing \<or> b1 AND 0xf = OpCodeClose) \<and>
               websocket_payload_size sock1 > 125) \<or>
            b1 AND 0x70 \<noteq> 0 \<or>
            ((b1 AND 0xf \<ge> OpCodeReserved3 \<and> b1 AND 0xf \<le> OpCodeReserved7) \<or>
             (b1 AND 0xf \<ge> OpCodeReservedB \<and> b1 AND 0xf \<le> OpCodeReservedF)) \<or>
            (\<not> b1 AND 0x80 \<noteq> 0 \<and> b1 AND 0xf \<noteq> OpCodeText \<and>
               b1 AND 0xf \<noteq> OpCodeBinary \<and> b1 AND 0xf \<noteq> OpCodeContinue) \<or>
            (websocket_continue_opcode sock1 \<noteq> 0 \<and>
               (b1 AND 0xf = OpCodeText \<or> b1 AND 0xf = OpCodeBinary))"
  have r: "websocket_parse_header cd s buf =
     (if code
      then (False,
            connectionClose (emit (IoWrite (createWebsocketCloseReply cd [] 1002)) sock1))
      else
        (let sock2 =
               (if b1 AND 0xf = OpCodeText \<or> b1 AND 0xf = OpCodeBinary then
                  (let s = sock1\<lparr>websocket_message := [], websocket_start_of_frame := 0\<rparr>
                   in if \<not> b1 AND 0x80 \<noteq> 0
                      then s\<lparr>websocket_continue_opcode := b1 AND 0xf\<rparr> else s)
                else sock1)
         in if websocket_payload_size sock2 = 126 then
              (True, sock2\<lparr>websocket_need := 2, websocket_phase := WebSocketPhaseSize\<rparr>)
            else if websocket_payload_size sock2 = 127 then
              (True, sock2\<lparr>websocket_need := 8, websocket_phase := WebSocketPhaseSize\<rparr>)
            else
              (True, sock2\<lparr>websocket_need := 4, websocket_phase := WebSocketPhaseMask\<rparr>)))"
    unfolding code_def websocket_parse_header_def Let_def sock1_def b1_def b2_def
    by (rule refl)
  have small: "unat (ucast (b2 AND 0x7f) :: 64 word) < 2 ^ 32"
  proof -
    have "b2 AND 0x7f \<le> 0x7f" by (rule word_and_le1)
    then have "unat (b2 AND 0x7f) \<le> 127" by (simp add: word_le_nat_alt)
    then show ?thesis by (simp add: unat_ucast_byte64)
  qed
  show ?thesis
  proof (cases code)
    case True
    then show ?thesis unfolding r by (simp add: closed_connectionClose)
  next
    case False
    then show ?thesis unfolding r using small
      by (simp add: sock1_def Let_def frame_state_ok_def)
  qed
qed

lemma parse_size_ok_or_closed:
  assumes "frame_state_ok s" and "websocket_phase s = WebSocketPhaseSize" and "0 \<le> sint mx"
  shows "(fst (websocket_parse_size s buf mx) \<longrightarrow> frame_state_ok (snd (websocket_parse_size s buf mx))) \<and>
   (\<not> fst (websocket_parse_size s buf mx) \<longrightarrow> closed (snd (websocket_parse_size s buf mx)))"
proof -
  have ps: "websocket_payload_size s = 126 \<or> websocket_payload_size s = 127"
    using assms(1,2) by (auto simp: frame_state_ok_def)
  have lt: "sint mx < 2 ^ 31" using sint_lt[of mx] by simp
  have b: "\<And>d :: 64 word. \<not> sint mx < uint d \<Longrightarrow> unat d < 2 ^ 32"
  proof -
    fix d :: "64 word" assume "\<not> sint mx < uint d"
    then have "uint d < 2 ^ 31" using lt by linarith
    then have "int (unat d) < int (2 ^ 32)" by (simp flip: uint_nat) 
    then show "unat d < 2 ^ 32" by (simp only: of_nat_less_iff)
  qed
  show ?thesis
    unfolding parse_size_cases[OF ps assms(3)]
    by (auto simp add: frame_state_ok_def closed_def dest: b)
qed

lemma parse_mask_ok:
  assumes "frame_state_ok s" and "websocket_phase s = WebSocketPhaseMask"
  shows "frame_state_ok (websocket_parse_mask cd s buf)"
proof -
  have lt: "unat (websocket_payload_size s) < 2 ^ 32"
    using assms by (simp add: frame_state_ok_def)
  have u: "unat (ucast (websocket_payload_size s) :: 32 word) = unat (websocket_payload_size s)"
    using lt by (simp add: unsigned_ucast_eq take_bit_nat_eq_self)
  show ?thesis
  proof (cases "websocket_payload_size s = 0")
    case True
    then show ?thesis
      unfolding websocket_parse_mask_def Let_def
      using parse_payload_complete_phase[where len = 0 and buf = buf and cd = cd and
               s = "s\<lparr>websocket_mask := load32 buf,
                        websocket_phase := WebSocketPhasePayload,
                        websocket_need := ucast (websocket_payload_size s),
                        websocket_payload := []\<rparr>"]
      by (simp add: frame_state_ok_def)
  next
    case False
    then have "0 < unat (websocket_payload_size s)" by (simp add: unat_gt_0)
    then show ?thesis
      unfolding websocket_parse_mask_def Let_def using False u
      by (simp add: frame_state_ok_def)
  qed
qed

subsection \<open>Runs of the read loop\<close>

lemma maxlen_eq:
  "pbs < 2 ^ 32 \<Longrightarrow> unat (min need (of_nat pbs :: 32 word)) = min (unat need) pbs"
  by (simp add: min_def word_le_nat_alt unat_of_nat)

lemma readyRead_terminates:
  assumes "0 < pbs" and "pbs < 2 ^ 32"
  shows "\<exists>r. readyRead cd pbs mx s io = Some r"
proof (induction "length (pending io)" arbitrary: s io rule: less_induct)
  case less
  show ?case
  proof (cases "stops s io")
    case True
    then show ?thesis by (simp add: readyRead_stop)
  next
    case ns: False
    show ?thesis
    proof (cases "read_fails io")
      case True
      then show ?thesis using ns by (simp add: readyRead_fail)
    next
      case False
      let ?n = "unat (min (websocket_need s) (of_nat pbs :: 32 word))"
      obtain ok s' where sw: "readyRead_switch cd mx s (take ?n (pending io)) = (ok, s')"
        by (cases "readyRead_switch cd mx s (take ?n (pending io))") auto
      have "websocket_need s \<noteq> 0" "pending io \<noteq> []" using ns by (auto simp: stops_def)
      then have "0 < ?n" "0 < length (pending io)"
        using assms by (simp_all add: maxlen_eq unat_gt_0)
      then have "length (pending (io\<lparr>pending := drop ?n (pending io)\<rparr>)) < length (pending io)"
        by simp
      from less[OF this] show ?thesis
        using ns False sw by (cases ok) (simp_all add: readyRead_step)
    qed
  qed
qed

lemma payload_partial_run:
  assumes "0 < pbs" and "pbs < 2 ^ 32"
  shows "websocket_phase s = WebSocketPhasePayload \<Longrightarrow>
    unat (websocket_need s) + length (websocket_payload s) = unat (websocket_payload_size s) \<Longrightarrow>
    \<not> read_fails io \<Longrightarrow> length (pending io) < unat (websocket_need s) \<Longrightarrow>
    readyRead cd pbs mx s io =
      Some (s\<lparr>websocket_payload := websocket_payload s @
                 unmask (websocket_mask s) (length (websocket_payload s)) (pending io),
              websocket_need := websocket_need s - of_nat (length (pending io))\<rparr>,
            io\<lparr>pending := []\<rparr>)"
proof (induction "length (pending io)" arbitrary: s io rule: less_induct)
  case less
  show ?case
  proof (cases "pending io = []")
    case True
    then have "stops s io" by (simp add: stops_def)
    then show ?thesis using True by (simp add: readyRead_stop)
  next
    case ne: False
    define x where "x = pending io"
    define n where "n = unat (min (websocket_need s) (of_nat pbs :: 32 word))"
    define c where "c = take n x"
    define k where "k = length c"
    have n: "n = min (unat (websocket_need s)) pbs" using assms by (simp add: n_def maxlen_eq)
    have need0: "websocket_need s \<noteq> 0" using less.prems(4) by (auto simp: unat_eq_zero)
    have ns: "\<not> stops s io" using ne need0 less.prems(1) by (simp add: stops_def)
    have xne: "x \<noteq> []" using ne by (simp add: x_def)
    have k: "k = min n (length x)" by (simp add: k_def c_def min.commute)
    have npos: "0 < n" using assms need0 by (simp add: n unat_gt_0)
    have kpos: "0 < k" using xne npos by (simp add: k)
    have kle: "k \<le> length x" by (simp add: k)
    have xlt: "length x < unat (websocket_need s)" using less.prems(4) by (simp add: x_def)
    have tk: "take k c = c" by (simp add: k_def)
    define s1 where "s1 = s\<lparr>websocket_payload := websocket_payload s @
                   unmask (websocket_mask s) (length (websocket_payload s)) c,
                 websocket_need := websocket_need s - of_nat k\<rparr>"
    define io1 where "io1 = io\<lparr>pending := drop n x\<rparr>"
    have part: "length (websocket_payload s) + length (take k c) < unat (websocket_payload_size s)"
      unfolding tk using less.prems(2) xlt kle by (simp add: k_def)
    have sw: "readyRead_switch cd mx s c = (True, s1)"
      using parse_payload_partial[OF part, of cd] less.prems(1)
      unfolding tk s1_def readyRead_switch_def k_def by simp
    have step: "readyRead cd pbs mx s io = readyRead cd pbs mx s1 io1"
      using readyRead_step[OF ns less.prems(3), of cd pbs mx, folded x_def n_def, folded c_def]
      unfolding sw io1_def by simp
    have klt: "k < 2 ^ 32"
      using xlt kle unsigned_less[of "websocket_need s", where 'a = nat] by simp
    have kn: "of_nat k \<le> websocket_need s"
      using xlt kle klt by (simp add: word_le_nat_alt unat_of_nat)
    have un1: "unat (websocket_need s1) = unat (websocket_need s) - k"
      using kn klt by (simp add: s1_def unat_sub unat_of_nat)
    have p1: "pending io1 = drop n x" by (simp add: io1_def)
    have sm: "length (pending io1) < length (pending io)"
      using npos xne unfolding p1 x_def[symmetric] by simp
    have ih: "readyRead cd pbs mx s1 io1 =
      Some (s1\<lparr>websocket_payload := websocket_payload s1 @
                 unmask (websocket_mask s1) (length (websocket_payload s1)) (pending io1),
              websocket_need := websocket_need s1 - of_nat (length (pending io1))\<rparr>,
            io1\<lparr>pending := []\<rparr>)"
    proof (rule less.hyps[OF sm])
      show "websocket_phase s1 = WebSocketPhasePayload" using less.prems(1) by (simp add: s1_def)
      show "unat (websocket_need s1) + length (websocket_payload s1) = unat (websocket_payload_size s1)"
        unfolding un1 using less.prems(2) xlt kle by (simp add: s1_def k_def)
      show "\<not> read_fails io1" using less.prems(3) by (simp add: io1_def)
      show "length (pending io1) < unat (websocket_need s1)"
        unfolding un1 p1 using xlt by (simp add: k)
    qed
    have xs: "x = c @ drop n x" by (simp add: c_def)
    have um: "unmask (websocket_mask s) (length (websocket_payload s)) x =
              unmask (websocket_mask s) (length (websocket_payload s)) c @
              unmask (websocket_mask s) (length (websocket_payload s) + k) (drop n x)"
      by (subst xs, subst unmask_append) (simp add: k_def)
    have ln: "websocket_need s - of_nat k - of_nat (length (drop n x)) =
              websocket_need s - of_nat (length x)"
    proof -
      have "length x = k + length (drop n x)" by (simp add: k)
      then have "(of_nat (length x) :: 32 word) = of_nat k + of_nat (length (drop n x))"
        by (metis of_nat_add)
      then show ?thesis by simp
    qed
    show ?thesis
      unfolding step ih p1 x_def[symmetric] um
      using ln by (simp add: s1_def io1_def k_def)
  qed
qed


lemma payload_complete_run:
  assumes "0 < pbs" and "pbs < 2 ^ 32"
  shows "websocket_phase s = WebSocketPhasePayload \<Longrightarrow>
    unat (websocket_need s) + length (websocket_payload s) = unat (websocket_payload_size s) \<Longrightarrow>
    length (websocket_payload s) < unat (websocket_payload_size s) \<Longrightarrow>
    \<not> read_fails io \<Longrightarrow> unat (websocket_need s) \<le> length (pending io) \<Longrightarrow>
    readyRead cd pbs mx s io =
      (case websocket_parse_payload cd s (take (unat (websocket_need s)) (pending io))
              (unat (websocket_need s)) of
         (ok, s') \<Rightarrow>
           if ok then readyRead cd pbs mx s'
                        (io\<lparr>pending := drop (unat (websocket_need s)) (pending io)\<rparr>)
           else Some (s', io\<lparr>pending := drop (unat (websocket_need s)) (pending io)\<rparr>))"
proof (induction "length (pending io)" arbitrary: s io rule: less_induct)
  case less
  define x where "x = pending io"
  define N where "N = unat (websocket_need s)"
  define n where "n = unat (min (websocket_need s) (of_nat pbs :: 32 word))"
  define c where "c = take n x"
  have n: "n = min N pbs" using assms by (simp add: n_def N_def maxlen_eq)
  have Npos: "0 < N" using less.prems(2,3) by (simp add: N_def)
  have Nle: "N \<le> length x" using less.prems(5) by (simp add: N_def x_def)
  have need0: "websocket_need s \<noteq> 0" using Npos by (auto simp: N_def)
  have xne: "x \<noteq> []" using Npos Nle by auto
  have ns: "\<not> stops s io" using xne need0 less.prems(1) by (simp add: stops_def x_def)
  have npos: "0 < n" using assms Npos by (simp add: n)
  have lc: "length c = n" using Nle by (simp add: c_def n)
  note step0 = readyRead_step[OF ns less.prems(4), of cd pbs mx, folded x_def n_def, folded c_def]
  have sw0: "readyRead_switch cd mx s c = websocket_parse_payload cd s c n"
    using less.prems(1) by (simp add: readyRead_switch_def lc)
  show ?case
  proof (cases "N \<le> pbs")
    case True
    then have nN: "n = N" by (simp add: n)
    show ?thesis
      using step0 sw0 unfolding c_def nN x_def[symmetric] N_def[symmetric] by simp
  next
    case False
    then have nn: "n = pbs" "n < N" by (simp_all add: n)
    define s1 where "s1 = s\<lparr>websocket_payload := websocket_payload s @
                   unmask (websocket_mask s) (length (websocket_payload s)) c,
                 websocket_need := websocket_need s - of_nat n\<rparr>"
    define io1 where "io1 = io\<lparr>pending := drop n x\<rparr>"
    have tk: "take n c = c" by (simp add: lc)
    have part: "length (websocket_payload s) + length (take n c) < unat (websocket_payload_size s)"
      unfolding tk lc using less.prems(2) nn by (simp add: N_def)
    have sw: "readyRead_switch cd mx s c = (True, s1)"
      unfolding sw0 using parse_payload_partial[OF part, of cd] unfolding tk s1_def by simp
    have step: "readyRead cd pbs mx s io = readyRead cd pbs mx s1 io1"
      using step0 unfolding sw io1_def by simp
    have nlt: "n < 2 ^ 32" using nn assms by simp
    have kn: "of_nat n \<le> websocket_need s"
      using nn nlt by (simp add: word_le_nat_alt unat_of_nat N_def)
    have un1: "unat (websocket_need s1) = N - n"
      using kn nlt by (simp add: s1_def unat_sub unat_of_nat N_def)
    have p1: "pending io1 = drop n x" by (simp add: io1_def)
    have sm: "length (pending io1) < length (pending io)"
      using npos xne unfolding p1 x_def[symmetric] by simp
    have ih: "readyRead cd pbs mx s1 io1 =
      (case websocket_parse_payload cd s1 (take (unat (websocket_need s1)) (pending io1))
              (unat (websocket_need s1)) of
         (ok, s') \<Rightarrow>
           if ok then readyRead cd pbs mx s'
                        (io1\<lparr>pending := drop (unat (websocket_need s1)) (pending io1)\<rparr>)
           else Some (s', io1\<lparr>pending := drop (unat (websocket_need s1)) (pending io1)\<rparr>))"
    proof (rule less.hyps[OF sm])
      show "websocket_phase s1 = WebSocketPhasePayload" using less.prems(1) by (simp add: s1_def)
      show "unat (websocket_need s1) + length (websocket_payload s1) = unat (websocket_payload_size s1)"
        unfolding un1 using less.prems(2) nn by (simp add: s1_def lc N_def)
      show "length (websocket_payload s1) < unat (websocket_payload_size s1)"
        using less.prems(2) nn by (simp add: s1_def lc N_def)
      show "\<not> read_fails io1" using less.prems(4) by (simp add: io1_def)
      show "unat (websocket_need s1) \<le> length (pending io1)"
        unfolding un1 p1 using Nle by simp
    qed
    define b where "b = take (N - n) (drop n x)"
    have lb: "length b = N - n" using Nle by (simp add: b_def)
    have ab: "c @ b = take N x"
      using nn unfolding c_def b_def by (metis add_diff_inverse_nat less_imp_le_nat not_less take_add)
    have mg: "websocket_parse_payload cd s1 b (N - n) = websocket_parse_payload cd s (take N x) N"
    proof -
      have "unat (websocket_payload_size s) \<le> length (websocket_payload s) + length c + length b"
        using less.prems(2) nn by (simp add: lc lb N_def)
      from parse_payload_merge[OF this, of cd "websocket_need s - of_nat n"]
      show ?thesis unfolding s1_def[symmetric] ab lc lb using nn by simp
    qed
    have dd: "drop (N - n) (drop n x) = drop N x" using nn by simp
    have io_eq: "io1\<lparr>pending := drop (N - n) (drop n x)\<rparr> = io\<lparr>pending := drop N x\<rparr>"
      using nn by (simp add: io1_def)
    show ?thesis
      unfolding step ih un1 p1 io_eq b_def[symmetric] mg
      unfolding x_def[symmetric] N_def[symmetric]
      by (rule refl)
  qed
qed


lemma switch_ok_or_closed:
  assumes "frame_state_ok s" and "websocket_phase s \<noteq> WebSocketPhasePayload"
    and "0 \<le> sint mx" and "readyRead_switch cd mx s buf = (ok, s')"
  shows "(ok \<longrightarrow> frame_state_ok s') \<and> (\<not> ok \<longrightarrow> closed s')"
proof (cases "websocket_phase s")
  case WebSocketPhaseHeaders
  then show ?thesis
    using assms(4) parse_header_ok_or_closed[of cd s buf]
    by (auto simp add: readyRead_switch_def)
next
  case WebSocketPhaseSize
  then show ?thesis
    using assms(4) parse_size_ok_or_closed[OF assms(1) WebSocketPhaseSize assms(3), of buf]
    by (auto simp add: readyRead_switch_def)
next
  case WebSocketPhaseMask
  then show ?thesis
    using assms(4) parse_mask_ok[OF assms(1) WebSocketPhaseMask, of cd buf]
    by (auto simp add: readyRead_switch_def)
next
  case WebSocketPhasePayload
  then show ?thesis using assms(2) by simp
qed

lemma stops_append:
  "\<not> stops s io \<Longrightarrow> \<not> stops s (io\<lparr>pending := pending io @ b\<rparr>)"
  by (auto simp add: stops_def)


lemma payload_partial_run':
  assumes "0 < pbs" and "pbs < 2 ^ 32"
    and "websocket_phase s = WebSocketPhasePayload"
    and "unat (websocket_need s) + length (websocket_payload s) = unat (websocket_payload_size s)"
    and "\<not> read_fails io" and "length x < unat (websocket_need s)"
  shows "readyRead cd pbs mx s (io\<lparr>pending := x\<rparr>) =
      Some (s\<lparr>websocket_payload := websocket_payload s @
                 unmask (websocket_mask s) (length (websocket_payload s)) x,
              websocket_need := websocket_need s - of_nat (length x)\<rparr>,
            io\<lparr>pending := []\<rparr>)"
  using payload_partial_run[OF assms(1-4), of "io\<lparr>pending := x\<rparr>" cd mx] assms(5,6)
  by simp

lemma payload_complete_run':
  assumes "0 < pbs" and "pbs < 2 ^ 32"
    and "websocket_phase s = WebSocketPhasePayload"
    and "unat (websocket_need s) + length (websocket_payload s) = unat (websocket_payload_size s)"
    and "length (websocket_payload s) < unat (websocket_payload_size s)"
    and "\<not> read_fails io" and "N = unat (websocket_need s)" and "N \<le> length x"
    and "websocket_parse_payload cd s (take N x) N = (ok, s')"
  shows "readyRead cd pbs mx s (io\<lparr>pending := x\<rparr>) =
      (if ok then readyRead cd pbs mx s' (io\<lparr>pending := drop N x\<rparr>)
       else Some (s', io\<lparr>pending := drop N x\<rparr>))"
  using payload_complete_run[OF assms(1-5), of "io\<lparr>pending := x\<rparr>" cd mx] assms(6-9)
  by simp

lemma readyRead_extend:
  assumes "0 < pbs" and "pbs < 2 ^ 32" and "0 \<le> sint mx"
  shows "frame_state_ok s \<Longrightarrow> readyRead cd pbs mx s io = Some (s1, io1) \<Longrightarrow> \<not> closed s1 \<Longrightarrow>
     readyRead cd pbs mx s (io\<lparr>pending := pending io @ b\<rparr>) =
       readyRead cd pbs mx s1 (io1\<lparr>pending := pending io1 @ b\<rparr>) \<and> frame_state_ok s1"
proof (induction "length (pending io)" arbitrary: s io rule: less_induct)
  case less
  define x where "x = pending io"
  define N where "N = unat (websocket_need s)"
  have io_x: "io = io\<lparr>pending := x\<rparr>" by (simp add: x_def)
  have iob: "io\<lparr>pending := pending io @ b\<rparr> = io\<lparr>pending := x @ b\<rparr>" by (simp add: x_def)
  show ?case
  proof (cases "stops s io")
    case True
    then have "s1 = s" "io1 = io" using less.prems(2) by (simp_all add: readyRead_stop)
    then show ?thesis using less.prems(1) by simp
  next
    case ns: False
    have xne: "x \<noteq> []" and need0: "websocket_need s \<noteq> 0"
      using ns by (auto simp: stops_def x_def)
    have Npos: "0 < N" using need0 by (simp add: N_def unat_gt_0)
    show ?thesis
    proof (cases "read_fails io")
      case True
      then have "s1 = connectionClose s" using ns less.prems(2) by (simp add: readyRead_fail)
      then show ?thesis using less.prems(3) by (simp add: closed_connectionClose)
    next
      case rd: False
      then have rd': "\<not> read_fails (io\<lparr>pending := pending io @ b\<rparr>)" by simp
      note ns' = stops_append[OF ns, of b]
      show ?thesis
      proof (cases "websocket_phase s = WebSocketPhasePayload")
        case np: False
        define n where "n = unat (min (websocket_need s) (of_nat pbs :: 32 word))"
        have n: "n = min N pbs" using assms by (simp add: n_def N_def maxlen_eq)
        have Nle: "N \<le> length x" using ns np by (auto simp: stops_def x_def N_def)
        have npos: "0 < n" and nle: "n \<le> length x" using assms Npos Nle by (simp_all add: n)
        define c where "c = take n x"
        define io' where "io' = io\<lparr>pending := drop n x\<rparr>"
        obtain ok s' where sw: "readyRead_switch cd mx s c = (ok, s')"
          by (cases "readyRead_switch cd mx s c") auto
        have st: "readyRead cd pbs mx s io =
                    (if ok then readyRead cd pbs mx s' io' else Some (s', io'))"
          using readyRead_step[OF ns rd, of cd pbs mx, folded x_def n_def, folded c_def]
          unfolding sw io'_def by simp
        have tb: "take n (pending (io\<lparr>pending := pending io @ b\<rparr>)) = c"
          using nle by (simp add: c_def x_def)
        have db: "io\<lparr>pending := pending io @ b, pending := drop n (pending io @ b)\<rparr> =
                   io'\<lparr>pending := pending io' @ b\<rparr>"
          using nle by (simp add: io'_def x_def)
        have st': "readyRead cd pbs mx s (io\<lparr>pending := pending io @ b\<rparr>) =
                    (if ok then readyRead cd pbs mx s' (io'\<lparr>pending := pending io' @ b\<rparr>)
                     else Some (s', io'\<lparr>pending := pending io' @ b\<rparr>))"
          using readyRead_step[OF ns' rd', of cd pbs mx, folded n_def]
          unfolding tb sw using db by simp
        note sok = switch_ok_or_closed[OF less.prems(1) np assms(3) sw]
        show ?thesis
        proof (cases ok)
          case False
          then have "s1 = s'" using st less.prems(2) by simp
          then show ?thesis using sok False less.prems(3) by simp
        next
          case True
          have sm: "length (pending io') < length (pending io)"
            using npos xne by (simp add: io'_def x_def)
          have r: "readyRead cd pbs mx s' io' = Some (s1, io1)"
            using st True less.prems(2) by simp
          from less.hyps[OF sm _ r less.prems(3)] sok True
          show ?thesis unfolding st' by simp
        qed
      next
        case pp: True
        have inv: "length (websocket_payload s) < unat (websocket_payload_size s)"
            "unat (websocket_need s) + length (websocket_payload s) = unat (websocket_payload_size s)"
          using less.prems(1) pp by (simp_all add: frame_state_ok_def)
        show ?thesis
        proof (cases "length x < N")
          case short: True
          define sp where "sp = s\<lparr>websocket_payload := websocket_payload s @
                 unmask (websocket_mask s) (length (websocket_payload s)) x,
              websocket_need := websocket_need s - of_nat (length x)\<rparr>"
          have run: "readyRead cd pbs mx s io = Some (sp, io\<lparr>pending := []\<rparr>)"
            using payload_partial_run'[OF assms(1,2) pp inv(2) rd, of x cd mx] short
            unfolding io_x[symmetric] by (simp add: N_def sp_def)
          then have e: "s1 = sp" "io1 = io\<lparr>pending := []\<rparr>" using less.prems(2) by simp_all
          have xl: "length x < 2 ^ 32"
            using short unsigned_less[of "websocket_need s", where 'a = nat] by (simp add: N_def)
          have le: "of_nat (length x) \<le> websocket_need s"
            using short xl by (simp add: word_le_nat_alt unat_of_nat N_def)
          have unp: "unat (websocket_need sp) = N - length x"
            using le xl by (simp add: sp_def unat_sub unat_of_nat N_def)
          have okp: "frame_state_ok sp"
            using pp inv short unp by (simp add: frame_state_ok_def sp_def N_def)
          have spp: "websocket_phase sp = WebSocketPhasePayload" using pp by (simp add: sp_def)
          have invp: "unat (websocket_need sp) + length (websocket_payload sp) =
                      unat (websocket_payload_size sp)"
            "length (websocket_payload sp) < unat (websocket_payload_size sp)"
            using okp spp by (simp_all add: frame_state_ok_def)
          have io1b: "io1\<lparr>pending := pending io1 @ b\<rparr> = io\<lparr>pending := b\<rparr>"
            by (simp add: e)
          have "readyRead cd pbs mx s (io\<lparr>pending := x @ b\<rparr>) =
                readyRead cd pbs mx sp (io\<lparr>pending := b\<rparr>)"
          proof (cases "length (x @ b) < N")
            case True
            have l: "readyRead cd pbs mx s (io\<lparr>pending := x @ b\<rparr>) =
               Some (s\<lparr>websocket_payload := websocket_payload s @
                 unmask (websocket_mask s) (length (websocket_payload s)) (x @ b),
                 websocket_need := websocket_need s - of_nat (length (x @ b))\<rparr>,
                     io\<lparr>pending := []\<rparr>)"
              using payload_partial_run'[OF assms(1,2) pp inv(2) rd, of "x @ b" cd mx] True
              by (simp add: N_def)
            have r: "readyRead cd pbs mx sp (io\<lparr>pending := b\<rparr>) =
               Some (sp\<lparr>websocket_payload := websocket_payload sp @
                 unmask (websocket_mask sp) (length (websocket_payload sp)) b,
                 websocket_need := websocket_need sp - of_nat (length b)\<rparr>,
                     io\<lparr>pending := []\<rparr>)"
              using payload_partial_run'[OF assms(1,2) spp invp(1) rd, of b cd mx]
                True unp by simp
            show ?thesis unfolding l r
              by (simp add: sp_def unmask_append)
          next
            case False
            then have ge: "N \<le> length x + length b" by simp
            define N' where "N' = N - length x"
            obtain ok s' where pr: "websocket_parse_payload cd s (take N (x @ b)) N = (ok, s')"
              by (cases "websocket_parse_payload cd s (take N (x @ b)) N") auto
            have tk: "take N (x @ b) = x @ take N' b" and dr: "drop N (x @ b) = drop N' b"
              using short by (simp_all add: N'_def)
            have lb: "length (take N' b) = N'" using ge short by (simp add: N'_def)
            have mg: "websocket_parse_payload cd sp (take N' b) N' =
                      websocket_parse_payload cd s (x @ take N' b) N"
            proof -
              have "unat (websocket_payload_size s) \<le>
                    length (websocket_payload s) + length x + length (take N' b)"
                unfolding lb using inv(2) short by (simp add: N'_def N_def)
              from parse_payload_merge[OF this, of cd "websocket_need s - of_nat (length x)"]
              show ?thesis unfolding sp_def[symmetric] lb using short by (simp add: N'_def)
            qed
            have l: "readyRead cd pbs mx s (io\<lparr>pending := x @ b\<rparr>) =
                (if ok then readyRead cd pbs mx s' (io\<lparr>pending := drop N (x @ b)\<rparr>)
                 else Some (s', io\<lparr>pending := drop N (x @ b)\<rparr>))"
              using payload_complete_run'[OF assms(1,2) pp inv(2,1) rd N_def _ pr] ge by simp
            have r: "readyRead cd pbs mx sp (io\<lparr>pending := b\<rparr>) =
                (if ok then readyRead cd pbs mx s' (io\<lparr>pending := drop N' b\<rparr>)
                 else Some (s', io\<lparr>pending := drop N' b\<rparr>))"
              using payload_complete_run'[OF assms(1,2) spp invp rd, of N' b cd ok s' mx]
                ge short pr unfolding mg tk by (simp add: unp N'_def)
            show ?thesis unfolding l r dr by (rule refl)
          qed
          then show ?thesis using okp unfolding io1b iob e by simp
        next
          case long: False
          then have Nle: "N \<le> length x" by simp
          obtain ok s' where pr: "websocket_parse_payload cd s (take N x) N = (ok, s')"
            by (cases "websocket_parse_payload cd s (take N x) N") auto
          define io' where "io' = io\<lparr>pending := drop N x\<rparr>"
          have st: "readyRead cd pbs mx s io =
                    (if ok then readyRead cd pbs mx s' io' else Some (s', io'))"
            using payload_complete_run'[OF assms(1,2) pp inv(2,1) rd N_def Nle pr]
            unfolding io_x[symmetric] io'_def by simp
          have tk: "take N (x @ b) = take N x" using Nle by simp
          have pr': "websocket_parse_payload cd s (take N (x @ b)) N = (ok, s')"
            unfolding tk by (rule pr)
          have db: "io\<lparr>pending := drop N (x @ b)\<rparr> = io'\<lparr>pending := pending io' @ b\<rparr>"
            using Nle by (simp add: io'_def)
          have st': "readyRead cd pbs mx s (io\<lparr>pending := x @ b\<rparr>) =
                    (if ok then readyRead cd pbs mx s' (io'\<lparr>pending := pending io' @ b\<rparr>)
                     else Some (s', io'\<lparr>pending := pending io' @ b\<rparr>))"
            using payload_complete_run'[OF assms(1,2) pp inv(2,1) rd N_def _ pr'] Nle
            unfolding db by simp
          show ?thesis
          proof (cases ok)
            case False
            then have "s1 = s'" using st less.prems(2) by simp
            moreover have "closed s'"
              using parse_payload_closed[of cd s "take N x" N] pr False by simp
            ultimately show ?thesis using less.prems(3) by simp
          next
            case True
            have sm: "length (pending io') < length (pending io)"
              using Npos xne by (simp add: io'_def x_def)
            have r: "readyRead cd pbs mx s' io' = Some (s1, io1)"
              using st True less.prems(2) by simp
            have "unat (websocket_payload_size s) \<le>
                  length (websocket_payload s) + length (take N (take N x))"
              using inv(2) Nle by (simp add: N_def)
            from parse_payload_complete_phase[OF this, of cd] pr
            have ok': "frame_state_ok s'" by (simp add: frame_state_ok_def)
            from less.hyps[OF sm ok' r less.prems(3)]
            show ?thesis unfolding st' iob using True by simp
          qed
        qed
      qed
    qed
  qed
qed

subsection \<open>Reads split at arbitrary places\<close>

lemma feed_closed_empty:
  "closed s \<Longrightarrow> concat cs = [] \<Longrightarrow> feed cd pbs mx s io cs = Some (s, io)"
  by (induction cs arbitrary: io) simp_all

lemma closes_after_Some:
  "readyRead cd pbs mx s (io\<lparr>pending := pending io @ bs\<rparr>) = Some (s', io') \<Longrightarrow>
   closes_after cd pbs mx s io bs = closed s'"
  by (simp add: closes_after_def)

lemma feed_eq_readyRead:
  assumes "0 < pbs" and "pbs < 2 ^ 32" and "0 \<le> sint mx"
  shows "frame_state_ok s \<Longrightarrow> readyRead cd pbs mx s io = Some (s, io) \<Longrightarrow>
    (\<forall>k < length (concat cs). \<not> closes_after cd pbs mx s io (take k (concat cs))) \<Longrightarrow>
    feed cd pbs mx s io cs = readyRead cd pbs mx s (io\<lparr>pending := pending io @ concat cs\<rparr>)"
proof (induction cs arbitrary: s io)
  case Nil
  then show ?case by simp
next
  case (Cons c cs)
  define io1 where "io1 = io\<lparr>pending := pending io @ c\<rparr>"
  have io1b: "\<And>b. io1\<lparr>pending := pending io1 @ b\<rparr> = io\<lparr>pending := pending io @ c @ b\<rparr>"
    by (simp add: io1_def)
  show ?case
  proof (cases "closed s")
    case True
    have cc: "concat (c # cs) = []"
    proof (rule ccontr)
      assume "concat (c # cs) \<noteq> []"
      then have "0 < length (concat (c # cs))" by simp
      then have "\<not> closes_after cd pbs mx s io (take 0 (concat (c # cs)))"
        using Cons.prems(3) by blast
      then show False using True Cons.prems(2) by (simp add: closes_after_def)
    qed
    have f: "feed cd pbs mx s io (c # cs) = Some (s, io)"
      by (rule feed_closed_empty[OF True cc])
    have "io\<lparr>pending := pending io @ concat (c # cs)\<rparr> = io" unfolding cc by simp
    then show ?thesis using f Cons.prems(2) by simp
  next
    case nc: False
    obtain s1 io' where r1: "readyRead cd pbs mx s io1 = Some (s1, io')"
      using readyRead_terminates[OF assms(1,2), of cd mx s io1] by auto
    have fd: "feed cd pbs mx s io (c # cs) = feed cd pbs mx s1 io' cs"
      using nc r1 by (simp add: io1_def)
    show ?thesis
    proof (cases "closed s1")
      case True
      have cc: "concat cs = []"
      proof (rule ccontr)
        assume "concat cs \<noteq> []"
        then have "length c < length (concat (c # cs))" by simp
        then have "\<not> closes_after cd pbs mx s io (take (length c) (concat (c # cs)))"
          using Cons.prems(3) by blast
        then show False using True r1 by (simp add: closes_after_def io1_def)
      qed
      have f: "feed cd pbs mx s1 io' cs = Some (s1, io')"
        by (rule feed_closed_empty[OF True cc])
      have "io\<lparr>pending := pending io @ concat (c # cs)\<rparr> = io1"
        using cc by (simp add: io1_def del: concat_eq_Nil_conv)
      then show ?thesis unfolding fd f using r1 by simp
    next
      case False
      note ext = readyRead_extend[OF assms Cons.prems(1) r1 False]
      have ok1: "frame_state_ok s1" using ext[of "[]"] by simp
      have q1: "readyRead cd pbs mx s1 io' = Some (s1, io')"
        using ext[of "[]"] r1 by simp
      have pre: "\<forall>k < length (concat cs). \<not> closes_after cd pbs mx s1 io' (take k (concat cs))"
      proof (intro allI impI)
        fix k assume k: "k < length (concat cs)"
        then have "length c + k < length (concat (c # cs))" by simp
        then have "\<not> closes_after cd pbs mx s io (take (length c + k) (concat (c # cs)))"
          using Cons.prems(3) by blast
        moreover have "take (length c + k) (concat (c # cs)) = c @ take k (concat cs)" by simp
        ultimately have "\<not> closes_after cd pbs mx s io (c @ take k (concat cs))" by simp
        then show "\<not> closes_after cd pbs mx s1 io' (take k (concat cs))"
          unfolding closes_after_def using ext[of "take k (concat cs)"]
          by (simp add: io1b)
      qed
      have "feed cd pbs mx s1 io' cs =
            readyRead cd pbs mx s1 (io'\<lparr>pending := pending io' @ concat cs\<rparr>)"
        by (rule Cons.IH[OF ok1 q1 pre])
      then show ?thesis unfolding fd using ext[of "concat cs"] by (simp add: io1b)
    qed
  qed
qed


lemma parse_payload_partial_nth:
  assumes "length (websocket_payload s) + length buf < unat (websocket_payload_size s)"
  shows "websocket_parse_payload cd s buf (length buf) =
     (True, s\<lparr>websocket_payload := websocket_payload s @
                  map (\<lambda>i. buf ! i XOR
                         mask_byte (websocket_mask s) ((length (websocket_payload s) + i) mod 4))
                    [0..<length buf],
               websocket_need := websocket_need s - of_nat (length buf)\<rparr>)"
proof -
  have "unmask (websocket_mask s) (length (websocket_payload s)) buf =
        map (\<lambda>i. buf ! i XOR
               mask_byte (websocket_mask s) ((length (websocket_payload s) + i) mod 4))
          [0..<length buf]"
    by (rule nth_equalityI) (simp_all add: unmask_nth)
  then show ?thesis
    using parse_payload_partial[of s "length buf" buf cd] assms by simp
qed

text \<open>
  Claim C2. The bytes of a frame sequence arrive in the chunks \<open>cs\<close>, cut anywhere: in the
  header, in the length field, in the mask, in the payload. The sequence is valid in that
  the engine does not close the connection before its last byte: given any proper prefix
  in one read, it returns with the connection open (a sequence that ends with a Close
  frame qualifies). The scratch buffer holds at least 8 bytes, so that a header, an
  extended length and a mask are read whole, and the maximum message size is not
  negative. Then feeding the chunks one by one ends, and in the very state, with the very
  trace of frames and messages dispatched and the very bytes left unread, in which
  \<^verbatim>\<open>readyRead\<close> ends when it is given all the bytes at once: payload buffer, message buffer
  and dispatches are the same. In particular a read that leaves the payload incomplete
  appends the bytes read, byte \<open>i\<close> of the read XORed with byte
  \<open>(n + i) mod 4\<close> of the mask, where \<open>n\<close> is the number of payload bytes of the frame
  unmasked before; the needed bytes drop by the length of the read.
\<close>

theorem C2_partition_independent:
  assumes "8 \<le> pbs" and "pbs < 2 ^ 32" and "0 \<le> sint mx"
    and "frame_state_ok sock" and "pending io = []"
    and "\<forall>k < length (concat cs). \<not> closes_after cd pbs mx sock io (take k (concat cs))"
  shows "feed cd pbs mx sock io cs = readyRead cd pbs mx sock (io\<lparr>pending := concat cs\<rparr>) \<and>
         (\<exists>sock' io'. feed cd pbs mx sock io cs = Some (sock', io')) \<and>
         (\<forall>s buf. length (websocket_payload s) + length buf < unat (websocket_payload_size s) \<longrightarrow>
            websocket_parse_payload cd s buf (length buf) =
              (True, s\<lparr>websocket_payload := websocket_payload s @
                        map (\<lambda>i. buf ! i XOR
                               mask_byte (websocket_mask s)
                                 ((length (websocket_payload s) + i) mod 4))
                          [0..<length buf],
                       websocket_need := websocket_need s - of_nat (length buf)\<rparr>))"
proof -
  have p: "0 < pbs" using assms(1) by simp
  have q: "readyRead cd pbs mx sock io = Some (sock, io)"
    using assms(5) by (simp add: readyRead_stop stops_def)
  have e: "feed cd pbs mx sock io cs =
           readyRead cd pbs mx sock (io\<lparr>pending := concat cs\<rparr>)"
    using feed_eq_readyRead[OF p assms(2,3,4) q assms(6)] assms(5) by simp
  moreover have "\<exists>r. readyRead cd pbs mx sock (io\<lparr>pending := concat cs\<rparr>) = Some r"
    by (rule readyRead_terminates[OF p assms(2)])
  ultimately show ?thesis
    using parse_payload_partial_nth[of _ _ cd] by auto
qed

text \<open>The rules that evaluate the model at concrete inputs.\<close>

lemmas eval_simps = readyRead.simps io_read_def Let_def readyRead_switch_def
  websocket_parse_header_def websocket_parse_size_def websocket_parse_mask_def
  websocket_parse_payload_def send_text_def send_text_payload_def send_binary_def send_pong_def
  send_closed_def send_closed_check_def OpCode_defs CloseCode_defs emit_def connectionClose_def
  closed_def bmp_utf8_codec_def sock_init_def ProtocolWebSocket_max_size_def
  createWebsocketCloseReply_def createWebsocketHeader_def mask_byte_load32 ws_be16_eq ws_be64_eq
  store16_def store64_def is_cont_def word_le_nat_alt word_less_nat_alt

text \<open>
  The spec's scenario: "hel" in a Text frame without FIN, "lo" in a final Continue frame,
  cut into six reads inside the header, the masks and the payloads. Two frame-level
  deliveries and one message "hello".
\<close>

theorem C2_partition_independent_witness:
  "feed bmp_utf8_codec 4096 (ProtocolWebSocket_max_size 1024) sock_init
     \<lparr>pending = [], read_fails = False\<rparr>
     [[0x01], [0x83, 1, 2], [3, 4, 0x69], [0x67, 0x6F, 0x80, 0x82, 5], [6, 7, 8, 0x69], [0x69]] =
   Some (sock_init\<lparr>websocket_finn_opcode := 0x80, websocket_payload_size := 2,
                     websocket_mask := load32 [5, 6, 7, 8], websocket_start_of_frame := 5,
                     trace := [WebSocketTextFrame [0x68, 0x65, 0x6C] False,
                               WebSocketTextFrame [0x6C, 0x6F] True,
                               WebSocketTextMessage [0x68, 0x65, 0x6C, 0x6C, 0x6F]]\<rparr>,
         \<lparr>pending = [], read_fails = False\<rparr>)"
proof -
  let ?io = "\<lparr>pending = [], read_fails = False\<rparr>"
  let ?cs = "[[0x01], [0x83, 1, 2], [3, 4, 0x69], [0x67, 0x6F, 0x80, 0x82, 5], [6, 7, 8, 0x69],
              [0x69 :: byte]]"
  have h1: "(8 :: nat) \<le> 4096" and h2: "(4096 :: nat) < 2 ^ 32" by simp_all
  have h3: "0 \<le> sint (ProtocolWebSocket_max_size 1024)"
    by (simp add: ProtocolWebSocket_max_size_def)
  have h4: "frame_state_ok sock_init" by (simp add: frame_state_ok_def sock_init_def)
  have h5: "pending ?io = []" by simp
  have h6: "\<forall>k < length (concat ?cs).
      \<not> closes_after bmp_utf8_codec 4096 (ProtocolWebSocket_max_size 1024) sock_init ?io
           (take k (concat ?cs))"
    by (simp add: All_less_Suc numeral_eq_Suc closes_after_def) (simp add: eval_simps)
  show ?thesis
    using C2_partition_independent[OF h1 h2 h3 h4 h5 h6]
    by (simp add: eval_simps)
qed

subsection \<open>Pong frames\<close>

lemma len7_conv:
  "((ucast (b :: byte) :: 64 word) = 126) = (b = 126)"
  "((ucast (b :: byte) :: 64 word) = 127) = (b = 127)"
  by (simp_all add: word_unat_eq_iff unat_ucast_byte64)













subsection \<open>The length field, written and read\<close>

lemma store16_bytes64:
  "(ucast (store16 (ucast w) (ucast (drop_bit 8 w))) :: 64 word) = take_bit 16 (w :: 64 word)"
  apply (rule bit_word_eqI)
  apply (simp add: store16_def bit_simps)
  apply (auto dest: bit_imp_le_length)
  done

lemma store64_bytes:
  "store64 (ucast w) (ucast (drop_bit 8 w)) (ucast (drop_bit 16 w)) (ucast (drop_bit 24 w))
     (ucast (drop_bit 32 w)) (ucast (drop_bit 40 w)) (ucast (drop_bit 48 w))
     (ucast (drop_bit 56 w)) = (w :: 64 word)"
proof (rule bit_word_eqI)
  fix n assume "n < LENGTH(64)"
  then consider "n < 8" | "8 \<le> n \<and> n < 16" | "16 \<le> n \<and> n < 24" | "24 \<le> n \<and> n < 32" 
     | "32 \<le> n \<and> n < 40" | "40 \<le> n \<and> n < 48" | "48 \<le> n \<and> n < 56" | "56 \<le> n \<and> n < 64" 
    by (simp, linarith)
  then show "bit (store64 (ucast w) (ucast (drop_bit 8 w)) (ucast (drop_bit 16 w))
     (ucast (drop_bit 24 w)) (ucast (drop_bit 32 w)) (ucast (drop_bit 40 w))
     (ucast (drop_bit 48 w)) (ucast (drop_bit 56 w))) n = bit w n"
    by cases (auto simp add: store64_def bit_simps)
qed

lemma header_small:
  assumes "(L :: 64 word) < 126"
  shows "createWebsocketHeader opcode L = [0x80 + opcode, ucast L]"
  using assms by (simp add: createWebsocketHeader_def)

lemma header_16:
  assumes "\<not> (L :: 64 word) < 126" and "L \<le> 0xffff"
  shows "createWebsocketHeader opcode L = [0x80 + opcode, 126, ucast (drop_bit 8 L), ucast L]"
  using assms by (simp add: createWebsocketHeader_def ucast_and_ff64)

lemma header_64:
  assumes "\<not> (L :: 64 word) \<le> 0xffff"
  shows "createWebsocketHeader opcode L =
     [0x80 + opcode, 127, ucast (drop_bit 56 L), ucast (drop_bit 48 L), ucast (drop_bit 40 L),
      ucast (drop_bit 32 L), ucast (drop_bit 24 L), ucast (drop_bit 16 L),
      ucast (drop_bit 8 L), ucast L]"
proof -
  have "\<not> L < 126" using assms by (simp add: word_le_nat_alt word_less_nat_alt)
  then show ?thesis using assms by (simp add: createWebsocketHeader_def ucast_and_ff64)
qed

lemma be16_round:
  assumes "(L :: 64 word) \<le> 0xffff"
  shows "(ucast (ws_be16 ([ucast (drop_bit 8 L), ucast L] @ rest)) :: 64 word) = L"
proof -
  have "L < 2 ^ 16" using assms by (simp add: word_le_nat_alt word_less_nat_alt)
  then have "take_bit 16 L = L" unfolding take_bit_eq_mask by (rule less_mask_eq)
  then show ?thesis by (simp add: ws_be16_eq store16_bytes64)
qed

lemma be64_round:
  "ws_be64 ([ucast (drop_bit 56 L), ucast (drop_bit 48 L), ucast (drop_bit 40 L),
      ucast (drop_bit 32 L), ucast (drop_bit 24 L), ucast (drop_bit 16 L),
      ucast (drop_bit 8 L), ucast L] @ rest) = L"
  by (simp add: ws_be64_eq store64_bytes)

lemma len7_round:
  assumes "(L :: 64 word) < 126"
  shows "(ucast L OR 0x80 :: byte) AND 0x7f = ucast L" and "(ucast (ucast L :: byte) :: 64 word) = L"
    and "(ucast L :: byte) AND 0x7f = ucast L"
    and "(ucast L :: byte) \<noteq> 126" and "(ucast L :: byte) \<noteq> 127"
proof -
  have u: "unat L < 126" using assms by (simp add: word_less_nat_alt)
  have ub: "unat (ucast L :: byte) = unat L"
    using u by (simp add: unsigned_ucast_eq take_bit_nat_eq_self)
  have lt: "(ucast L :: byte) < 2 ^ 7" using u ub by (simp add: word_less_nat_alt)
  have am: "(ucast L :: byte) AND mask 7 = ucast L" by (rule less_mask_eq[OF lt])
  have m: "(0x7f :: byte) = mask 7" by (simp add: mask_eq_exp_minus_1)
  show a: "(ucast L :: byte) AND 0x7f = ucast L"
    unfolding m by (rule am)
  have z: "(0x80 :: byte) AND 0x7f = 0" by simp
  show "(ucast L OR 0x80 :: byte) AND 0x7f = ucast L"
    by (simp add: bit.conj_disj_distrib2 a z)
  show "(ucast (ucast L :: byte) :: 64 word) = L"
    using ub by (simp add: word_unat_eq_iff unat_ucast_byte64)
  show "(ucast L :: byte) \<noteq> 126" "(ucast L :: byte) \<noteq> 127"
    using u ub by (auto simp add: word_unat_eq_iff)
qed


lemma binary_header:
  assumes "bit b2 7" and "websocket_continue_opcode s = 0"
  shows "websocket_parse_header cd s [0x82, b2] =
     (True, s\<lparr>websocket_finn_opcode := 0x82,
              websocket_payload_size := ucast (b2 AND 0x7f),
              websocket_message := [], websocket_start_of_frame := 0,
              websocket_need := (if b2 AND 0x7f = 126 then 2 else if b2 AND 0x7f = 127 then 8 else 4),
              websocket_phase := (if b2 AND 0x7f = 126 \<or> b2 AND 0x7f = 127
                                  then WebSocketPhaseSize else WebSocketPhaseMask)\<rparr>)"
  using assms
  by (simp add: websocket_parse_header_def Let_def OpCode_defs drop7 len7_conv)

lemma binary_header_run:
  fixes b2 :: byte and ext :: bytes
  defines "len7 \<equiv> b2 AND 0x7f"
  defines "declared \<equiv>
     (if len7 = 126 then ucast (ws_be16 ext) else if len7 = 127 then ws_be64 ext
      else ucast len7 :: 64 word)"
  assumes pbs: "8 \<le> pbs" "pbs < 2 ^ 32" and mx: "0 \<le> sint mx"
    and ph: "websocket_phase sock = WebSocketPhaseHeaders" and nd: "websocket_need sock = 2"
    and co: "websocket_continue_opcode sock = 0"
    and rf: "\<not> read_fails io" and msk: "bit b2 7"
    and le: "length ext = (if len7 = 126 then 2 else if len7 = 127 then 8 else 0)"
  shows "readyRead cd pbs mx sock (io\<lparr>pending := [0x82, b2] @ ext\<rparr>) =
     Some (if (len7 \<noteq> 126 \<and> len7 \<noteq> 127) \<or> uint declared \<le> sint mx
           then sock\<lparr>websocket_finn_opcode := 0x82, websocket_payload_size := declared,
                      websocket_message := [], websocket_start_of_frame := 0,
                      websocket_need := 4, websocket_phase := WebSocketPhaseMask\<rparr>
           else sock\<lparr>websocket_finn_opcode := 0x82, websocket_payload_size := ucast len7,
                      websocket_message := [], websocket_start_of_frame := 0,
                      websocket_need := (if len7 = 126 then 2 else 8),
                      websocket_phase := WebSocketPhaseSize,
                      trace := trace sock @ [ConnectionClose]\<rparr>,
           io\<lparr>pending := []\<rparr>)"
proof -
  define s1 where "s1 = sock\<lparr>websocket_finn_opcode := 0x82,
              websocket_payload_size := ucast len7,
              websocket_message := [], websocket_start_of_frame := 0,
              websocket_need := (if len7 = 126 then 2 else if len7 = 127 then 8 else 4),
              websocket_phase := (if len7 = 126 \<or> len7 = 127
                                  then WebSocketPhaseSize else WebSocketPhaseMask)\<rparr>"
  have m2: "unat (min (2 :: 32 word) (of_nat pbs)) = 2"
    using pbs by (simp add: maxlen_eq)
  have ns: "\<not> stops sock (io\<lparr>pending := [0x82, b2] @ ext\<rparr>)"
    by (simp add: stops_def nd)
  have rf0: "\<not> read_fails (io\<lparr>pending := [0x82, b2] @ ext\<rparr>)" using rf by simp
  have step1: "readyRead cd pbs mx sock (io\<lparr>pending := [0x82, b2] @ ext\<rparr>) =
               readyRead cd pbs mx s1 (io\<lparr>pending := ext\<rparr>)"
    unfolding readyRead_step[OF ns rf0] nd m2
    by (simp add: readyRead_switch_def ph binary_header[OF msk co] s1_def len7_def)
  have st: "stops s' (io\<lparr>pending := []\<rparr>)" for s' by (simp add: stops_def)
  have rf1: "\<not> read_fails (io\<lparr>pending := ext\<rparr>)" using rf by simp
  consider (small) "len7 \<noteq> 126" "len7 \<noteq> 127" | (w16) "len7 = 126" | (w64) "len7 = 127"
    by blast
  then show ?thesis
  proof cases
    case small
    then have "ext = []" using le by simp
    then show ?thesis unfolding step1 using small
      by (simp add: readyRead_stop[OF st]) (simp add: s1_def declared_def)
  next
    case w16
    then have l: "length ext = 2" using le by simp
    have d: "declared = ucast (ws_be16 ext)" using w16 by (simp add: declared_def)
    have ns1: "\<not> stops s1 (io\<lparr>pending := ext\<rparr>)"
      using l w16 by (auto simp add: stops_def s1_def)
    have n1: "websocket_need s1 = 2" using w16 by (simp add: s1_def)
    have ps: "websocket_payload_size s1 = 126 \<or> websocket_payload_size s1 = 127"
      using w16 by (simp add: s1_def)
    have ps1: "websocket_payload_size s1 = 126" using w16 by (simp add: s1_def)
    have ph1: "websocket_phase s1 = WebSocketPhaseSize" using w16 by (simp add: s1_def)
    have sw: "readyRead_switch cd mx s1 ext =
       (if sint mx < uint declared then (False, s1\<lparr>trace := trace s1 @ [ConnectionClose]\<rparr>)
        else (True, s1\<lparr>websocket_payload_size := declared,
                 websocket_need := 4, websocket_phase := WebSocketPhaseMask\<rparr>))"
      using ph1 by (simp add: readyRead_switch_def parse_size_cases[OF ps mx] ps1 d)
    show ?thesis
      unfolding step1 readyRead_step[OF ns1 rf1] n1 m2
      using l sw w16 by (simp add: readyRead_stop[OF st] not_less) (simp add: s1_def)
  next
    case w64
    then have l: "length ext = 8" using le by simp
    have d: "declared = ws_be64 ext" using w64 by (simp add: declared_def)
    have m8: "unat (min (8 :: 32 word) (of_nat pbs)) = 8"
      using pbs by (simp add: maxlen_eq)
    have ns1: "\<not> stops s1 (io\<lparr>pending := ext\<rparr>)"
      using l w64 by (auto simp add: stops_def s1_def)
    have n1: "websocket_need s1 = 8" using w64 by (simp add: s1_def)
    have ps: "websocket_payload_size s1 = 126 \<or> websocket_payload_size s1 = 127"
      using w64 by (simp add: s1_def)
    have ps1: "websocket_payload_size s1 = 127" using w64 by (simp add: s1_def)
    have ph1: "websocket_phase s1 = WebSocketPhaseSize" using w64 by (simp add: s1_def)
    have sw: "readyRead_switch cd mx s1 ext =
       (if sint mx < uint declared then (False, s1\<lparr>trace := trace s1 @ [ConnectionClose]\<rparr>)
        else (True, s1\<lparr>websocket_payload_size := declared,
                 websocket_need := 4, websocket_phase := WebSocketPhaseMask\<rparr>))"
      using ph1 by (simp add: readyRead_switch_def parse_size_cases[OF ps mx] ps1 d)
    show ?thesis
      unfolding step1 readyRead_step[OF ns1 rf1] n1 m8
      using l sw w64 by (simp add: readyRead_stop[OF st] not_less) (simp add: s1_def)
  qed
qed


text \<open>
  Claim C5, amended. For every length \<open>L\<close> of 64 bits, the encoder writes \<open>L\<close> itself in
  the second byte when \<open>L < 126\<close>, the marker 126 and the two bytes of \<open>L\<close>, high byte first,
  when \<open>L \<le> 65535\<close>, and the marker 127 and the eight bytes of \<open>L\<close>, high byte first,
  otherwise; and the decoder's readers of the length (the low seven bits of the second
  byte, \<^verbatim>\<open>ws_be16\<close>, \<^verbatim>\<open>ws_be64\<close>) return \<open>L\<close> on these bytes. The decoder takes frames of
  the client, which are masked, and the encoder writes frames of the server, which are
  not: run on the header of a Binary frame in which the mask bit has been set, with a
  maximum message size that is not negative, the header phase and the extended-length
  phase leave the declared length \<open>L\<close> and await the mask when \<open>L < 126\<close> or \<open>L\<close> is not
  above the maximum; otherwise the connection is closed in the extended-length phase and
  the declared length stays the marker.
\<close>

theorem C5_length_round_trip:
  fixes L :: "64 word" and opcode :: byte
  defines "hdr \<equiv> createWebsocketHeader opcode L"
  defines "masked \<equiv> (createWebsocketHeader OpCodeBinary L)
                        [1 := createWebsocketHeader OpCodeBinary L ! 1 OR 0x80]"
  assumes "8 \<le> pbs" and "pbs < 2 ^ 32" and "0 \<le> sint mx"
    and "websocket_phase sock = WebSocketPhaseHeaders" and "websocket_need sock = 2"
    and "websocket_continue_opcode sock = 0" and "\<not> read_fails io"
  shows "hdr =
      (if L < 126 then [0x80 + opcode, ucast L]
       else if L \<le> 0xffff then [0x80 + opcode, 126, ucast (drop_bit 8 L), ucast L]
       else [0x80 + opcode, 127, ucast (drop_bit 56 L), ucast (drop_bit 48 L),
             ucast (drop_bit 40 L), ucast (drop_bit 32 L), ucast (drop_bit 24 L),
             ucast (drop_bit 16 L), ucast (drop_bit 8 L), ucast L]) \<and>
     (if L < 126 then ucast (hdr ! 1 AND 0x7f)
      else if L \<le> 0xffff then ucast (ws_be16 (drop 2 hdr))
      else ws_be64 (drop 2 hdr)) = L \<and>
     readyRead cd pbs mx sock (io\<lparr>pending := masked\<rparr>) =
       Some (if L < 126 \<or> uint L \<le> sint mx
             then sock\<lparr>websocket_finn_opcode := 0x82, websocket_payload_size := L,
                        websocket_message := [], websocket_start_of_frame := 0,
                        websocket_need := 4, websocket_phase := WebSocketPhaseMask\<rparr>
             else sock\<lparr>websocket_finn_opcode := 0x82,
                        websocket_payload_size := (if L \<le> 0xffff then 126 else 127),
                        websocket_message := [], websocket_start_of_frame := 0,
                        websocket_need := (if L \<le> 0xffff then 2 else 8),
                        websocket_phase := WebSocketPhaseSize,
                        trace := trace sock @ [ConnectionClose]\<rparr>,
             io\<lparr>pending := []\<rparr>)"
proof -
  note run = binary_header_run[OF assms(3-9), of _ _ cd]
  consider (small) "L < 126" | (w16) "\<not> L < 126" "L \<le> 0xffff" | (w64) "\<not> L \<le> 0xffff"
    by blast
  then show ?thesis
  proof cases
    case small
    note r = len7_round[OF small]
    have b: "bit (ucast L OR 0x80 :: byte) 7" by (simp add: bit_simps)
    have m: "masked = [0x82, ucast L OR 0x80] @ []"
      by (simp add: masked_def header_small[OF small] OpCode_defs)
    show ?thesis
      unfolding hdr_def header_small[OF small] m
      using small run[of "ucast L OR 0x80" "[]", OF b] by (simp add: r)
  next
    case w16
    have nlt: "\<not> L < 126" by (rule w16(1))
    have b: "bit (0xFE :: byte) 7" by simp
    have l7: "(0xFE :: byte) AND 0x7f = 126" by simp
    have m: "masked = [0x82, 0xFE] @ [ucast (drop_bit 8 L), ucast L]"
      by (simp add: masked_def header_16[OF w16] OpCode_defs)
    have be: "(ucast (ws_be16 [ucast (drop_bit 8 L), ucast L]) :: 64 word) = L"
      using be16_round[OF w16(2), of "[]"] by simp
    show ?thesis
      unfolding hdr_def header_16[OF w16] m
      using w16 run[of "0xFE" "[ucast (drop_bit 8 L), ucast L]", OF b]
      by (simp add: l7 be)
  next
    case w64
    have nlt: "\<not> L < 126" using w64 by (simp add: word_le_nat_alt word_less_nat_alt)
    have b: "bit (0xFF :: byte) 7" by simp
    have l7: "(0xFF :: byte) AND 0x7f = 127" by simp
    define e where "e = [ucast (drop_bit 56 L), ucast (drop_bit 48 L),
             ucast (drop_bit 40 L), ucast (drop_bit 32 L), ucast (drop_bit 24 L),
             ucast (drop_bit 16 L), ucast (drop_bit 8 L), ucast L :: byte]"
    have le: "length e = 8" by (simp add: e_def)
    have m: "masked = [0x82, 0xFF] @ e"
      by (simp add: masked_def header_64[OF w64] OpCode_defs e_def)
    have be: "ws_be64 e = L"
      using be64_round[of L "[]"] by (simp add: e_def)
    have h: "createWebsocketHeader opcode L = [0x80 + opcode, 127] @ e"
      by (simp add: header_64[OF w64] e_def)
    have "readyRead cd pbs mx sock (io\<lparr>pending := masked\<rparr>) =
       Some (if uint L \<le> sint mx
             then sock\<lparr>websocket_finn_opcode := 0x82, websocket_payload_size := L,
                        websocket_message := [], websocket_start_of_frame := 0,
                        websocket_need := 4, websocket_phase := WebSocketPhaseMask\<rparr>
             else sock\<lparr>websocket_finn_opcode := 0x82,
                        websocket_payload_size := 127,
                        websocket_message := [], websocket_start_of_frame := 0,
                        websocket_need := 8,
                        websocket_phase := WebSocketPhaseSize,
                        trace := trace sock @ [ConnectionClose]\<rparr>,
             io\<lparr>pending := []\<rparr>)"
      unfolding m using run[of "0xFF" e, OF b] by (simp add: l7 be le)
    moreover have "ws_be64 (drop 2 hdr) = L" unfolding hdr_def h by (simp add: be)
    moreover have "hdr = [0x80 + opcode, 127, ucast (drop_bit 56 L), ucast (drop_bit 48 L),
             ucast (drop_bit 40 L), ucast (drop_bit 32 L), ucast (drop_bit 24 L),
             ucast (drop_bit 16 L), ucast (drop_bit 8 L), ucast L]"
      unfolding hdr_def by (rule header_64[OF w64])
    ultimately show ?thesis using w64 nlt by simp
  qed
qed


text \<open>
  The length 65536 takes the 64-bit form and, within a maximum of 1 MiB, is read back.
\<close>

theorem C5_length_round_trip_witness:
  "createWebsocketHeader OpCodeText 65536 = [0x81, 127, 0, 0, 0, 0, 0, 1, 0, 0] \<and>
   ws_be64 [0, 0, 0, 0, 0, 1, 0, 0] = 65536 \<and>
   readyRead bmp_utf8_codec 4096 (ProtocolWebSocket_max_size 1024) sock_init
      \<lparr>pending = [0x82, 0xFF, 0, 0, 0, 0, 0, 1, 0, 0], read_fails = False\<rparr> =
     Some (sock_init\<lparr>websocket_finn_opcode := 0x82, websocket_payload_size := 65536,
                      websocket_need := 4, websocket_phase := WebSocketPhaseMask\<rparr>,
           \<lparr>pending = [], read_fails = False\<rparr>)"
proof -
  have mx: "sint (ProtocolWebSocket_max_size 1024) = 1048576"
    by (simp add: ProtocolWebSocket_max_size_def)
  have h1: "(8 :: nat) \<le> 4096" and h2: "(4096 :: nat) < 2 ^ 32"
    and h3: "0 \<le> sint (ProtocolWebSocket_max_size 1024)"
    and h4: "websocket_phase sock_init = WebSocketPhaseHeaders"
    and h5: "websocket_need sock_init = 2"
    and h6: "websocket_continue_opcode sock_init = 0"
    and h7: "\<not> read_fails \<lparr>pending = [], read_fails = False\<rparr>"
    by (simp_all add: mx sock_init_def)
  have e: "createWebsocketHeader 1 65536 = [0x81, 127, 0, 0, 0, 0, 0, 1, 0, 0]"
    "createWebsocketHeader 2 65536 = [0x82, 127, 0, 0, 0, 0, 0, 1, 0, 0]"
    by (simp_all add: createWebsocketHeader_def)
  show ?thesis
    using C5_length_round_trip[OF h1 h2 h3 h4 h5 h6 h7, of OpCodeText 65536 bmp_utf8_codec]
    by (simp add: e mx OpCode_defs) (simp add: sock_init_def)
qed

text \<open>
  The claim as stated fails. The header the encoder writes for a Binary frame of 127
  bytes has the mask bit clear: the header phase answers with the close reply for 1002,
  closes, and the declared length is the marker 126; the two bytes of the length are
  never read. And \<open>2 ^ 33\<close> is above every maximum an \<^verbatim>\<open>int\<close> that is not negative can
  hold: even with the mask bit set, the extended-length phase closes the connection.
\<close>

theorem C5_round_trip_counterexample:
  "readyRead bmp_utf8_codec 4096 (ProtocolWebSocket_max_size 1024) sock_init
      \<lparr>pending = createWebsocketHeader OpCodeBinary 127, read_fails = False\<rparr> =
     Some (sock_init\<lparr>websocket_finn_opcode := 0x82, websocket_payload_size := 126,
                      trace := [IoWrite [0x88, 0x02, 0x03, 0xEA], ConnectionClose]\<rparr>,
           \<lparr>pending = [0x00, 0x7F], read_fails = False\<rparr>) \<and>
   readyRead bmp_utf8_codec 4096 (ProtocolWebSocket_max_size 1024) sock_init
      \<lparr>pending = (createWebsocketHeader OpCodeBinary 8589934592)[1 := 0xFF],
       read_fails = False\<rparr> =
     Some (sock_init\<lparr>websocket_finn_opcode := 0x82, websocket_payload_size := 127,
                      websocket_need := 8, websocket_phase := WebSocketPhaseSize,
                      trace := [ConnectionClose]\<rparr>,
           \<lparr>pending = [], read_fails = False\<rparr>)"
proof -
  have e: "createWebsocketHeader OpCodeBinary 127 = [0x82, 126, 0x00, 0x7F]"
    "createWebsocketHeader OpCodeBinary 8589934592 = [0x82, 127, 0, 0, 0, 2, 0, 0, 0, 0]"
    by (simp_all add: createWebsocketHeader_def OpCode_defs)
  have mx: "scast (ProtocolWebSocket_max_size 1024) = (1048576 :: 64 word)"
    by (simp add: ProtocolWebSocket_max_size_def)
  show ?thesis
    unfolding e by (simp add: mx) (simp add: eval_simps)
qed

subsection \<open>Text that does not decode\<close>

text \<open>
  Claim C3. A Text message whose bytes do not decode when its frame with FIN completes
  ends the connection, and no close frame is written; an incomplete code point at the end
  of a frame without FIN is no failure: the bytes are kept and decoded with the next
  frame. Five runs from a fresh connection, every frame masked with 1, 2, 3, 4:

  \<^enum> an empty Text frame without FIN, then a final Continue frame with the byte
    \<^verbatim>\<open>0xFF\<close>. \<^verbatim>\<open>send_text\<close> finds \<^verbatim>\<open>websocket_payload == websocket_message\<close> and delivers
    what it has just decoded, without looking at \<^verbatim>\<open>failed\<close>: the session gets the message
    U+FFFD and the connection stays open. This is where the engine departs from the claim;
  \<^enum> the same byte in a Text frame with FIN: the connection is closed, nothing is
    written or delivered;
  \<^enum> the same byte in a final Continue frame after the fragment "a": the connection is
    closed, nothing is written;
  \<^enum> the first two bytes of U+20AC in a Text frame without FIN: nothing is delivered,
    the connection stays open, the two bytes stay in the message buffer;
  \<^enum> the third byte in a final Continue frame: the frame and the message U+20AC are
    delivered.
\<close>

theorem C3_decode_failure_at_final_frame:
  "readyRead bmp_utf8_codec 4096 (ProtocolWebSocket_max_size 1024) sock_init
      \<lparr>pending = [0x01, 0x80, 1, 2, 3, 4, 0x80, 0x81, 1, 2, 3, 4, 0xFE],
       read_fails = False\<rparr> =
     Some (sock_init\<lparr>websocket_finn_opcode := 0x80, websocket_payload_size := 1,
                      websocket_mask := load32 [1, 2, 3, 4],
                      trace := [WebSocketTextFrame [] False,
                                WebSocketTextMessage [0xFFFD]]\<rparr>,
           \<lparr>pending = [], read_fails = False\<rparr>) \<and>
   readyRead bmp_utf8_codec 4096 (ProtocolWebSocket_max_size 1024) sock_init
      \<lparr>pending = [0x81, 0x81, 1, 2, 3, 4, 0xFE], read_fails = False\<rparr> =
     Some (sock_init\<lparr>websocket_finn_opcode := 0x81, websocket_payload_size := 1,
                      websocket_mask := load32 [1, 2, 3, 4],
                      websocket_message := [0xFF], websocket_payload := [0xFF],
                      trace := [ConnectionClose]\<rparr>,
           \<lparr>pending = [], read_fails = False\<rparr>) \<and>
   readyRead bmp_utf8_codec 4096 (ProtocolWebSocket_max_size 1024) sock_init
      \<lparr>pending = [0x01, 0x81, 1, 2, 3, 4, 0x60, 0x80, 0x81, 1, 2, 3, 4, 0xFE],
       read_fails = False\<rparr> =
     Some (sock_init\<lparr>websocket_finn_opcode := 0x80, websocket_payload_size := 1,
                      websocket_mask := load32 [1, 2, 3, 4],
                      websocket_start_of_frame := 1,
                      websocket_message := [0x61, 0xFF], websocket_payload := [0xFF],
                      trace := [WebSocketTextFrame [0x61] False, ConnectionClose]\<rparr>,
           \<lparr>pending = [], read_fails = False\<rparr>) \<and>
   readyRead bmp_utf8_codec 4096 (ProtocolWebSocket_max_size 1024) sock_init
      \<lparr>pending = [0x01, 0x82, 1, 2, 3, 4, 0xE3, 0x80], read_fails = False\<rparr> =
     Some (sock_init\<lparr>websocket_finn_opcode := 0x01, websocket_payload_size := 2,
                      websocket_continue_opcode := 1,
                      websocket_mask := load32 [1, 2, 3, 4],
                      websocket_message := [0xE2, 0x82], websocket_payload := [0xE2, 0x82]\<rparr>,
           \<lparr>pending = [], read_fails = False\<rparr>) \<and>
   readyRead bmp_utf8_codec 4096 (ProtocolWebSocket_max_size 1024) sock_init
      \<lparr>pending = [0x01, 0x82, 1, 2, 3, 4, 0xE3, 0x80, 0x80, 0x81, 1, 2, 3, 4, 0xAD],
       read_fails = False\<rparr> =
     Some (sock_init\<lparr>websocket_finn_opcode := 0x80, websocket_payload_size := 1,
                      websocket_mask := load32 [1, 2, 3, 4],
                      websocket_start_of_frame := 3,
                      trace := [WebSocketTextFrame [0x20AC] True,
                                WebSocketTextMessage [0x20AC]]\<rparr>,
           \<lparr>pending = [], read_fails = False\<rparr>)"
proof (intro conjI)
  show "readyRead bmp_utf8_codec 4096 (ProtocolWebSocket_max_size 1024) sock_init
      \<lparr>pending = [0x01, 0x80, 1, 2, 3, 4, 0x80, 0x81, 1, 2, 3, 4, 0xFE],
       read_fails = False\<rparr> =
     Some (sock_init\<lparr>websocket_finn_opcode := 0x80, websocket_payload_size := 1,
                      websocket_mask := load32 [1, 2, 3, 4],
                      trace := [WebSocketTextFrame [] False,
                                WebSocketTextMessage [0xFFFD]]\<rparr>,
           \<lparr>pending = [], read_fails = False\<rparr>)"
    by (simp add: eval_simps)
  show "readyRead bmp_utf8_codec 4096 (ProtocolWebSocket_max_size 1024) sock_init
      \<lparr>pending = [0x81, 0x81, 1, 2, 3, 4, 0xFE], read_fails = False\<rparr> =
     Some (sock_init\<lparr>websocket_finn_opcode := 0x81, websocket_payload_size := 1,
                      websocket_mask := load32 [1, 2, 3, 4],
                      websocket_message := [0xFF], websocket_payload := [0xFF],
                      trace := [ConnectionClose]\<rparr>,
           \<lparr>pending = [], read_fails = False\<rparr>)"
    by (simp add: eval_simps)
  show "readyRead bmp_utf8_codec 4096 (ProtocolWebSocket_max_size 1024) sock_init
      \<lparr>pending = [0x01, 0x81, 1, 2, 3, 4, 0x60, 0x80, 0x81, 1, 2, 3, 4, 0xFE],
       read_fails = False\<rparr> =
     Some (sock_init\<lparr>websocket_finn_opcode := 0x80, websocket_payload_size := 1,
                      websocket_mask := load32 [1, 2, 3, 4],
                      websocket_start_of_frame := 1,
                      websocket_message := [0x61, 0xFF], websocket_payload := [0xFF],
                      trace := [WebSocketTextFrame [0x61] False, ConnectionClose]\<rparr>,
           \<lparr>pending = [], read_fails = False\<rparr>)"
    by (simp add: eval_simps)
  show "readyRead bmp_utf8_codec 4096 (ProtocolWebSocket_max_size 1024) sock_init
      \<lparr>pending = [0x01, 0x82, 1, 2, 3, 4, 0xE3, 0x80], read_fails = False\<rparr> =
     Some (sock_init\<lparr>websocket_finn_opcode := 0x01, websocket_payload_size := 2,
                      websocket_continue_opcode := 1,
                      websocket_mask := load32 [1, 2, 3, 4],
                      websocket_message := [0xE2, 0x82], websocket_payload := [0xE2, 0x82]\<rparr>,
           \<lparr>pending = [], read_fails = False\<rparr>)"
    by (simp add: eval_simps)
  show "readyRead bmp_utf8_codec 4096 (ProtocolWebSocket_max_size 1024) sock_init
      \<lparr>pending = [0x01, 0x82, 1, 2, 3, 4, 0xE3, 0x80, 0x80, 0x81, 1, 2, 3, 4, 0xAD],
       read_fails = False\<rparr> =
     Some (sock_init\<lparr>websocket_finn_opcode := 0x80, websocket_payload_size := 1,
                      websocket_mask := load32 [1, 2, 3, 4],
                      websocket_start_of_frame := 3,
                      trace := [WebSocketTextFrame [0x20AC] True,
                                WebSocketTextMessage [0x20AC]]\<rparr>,
           \<lparr>pending = [], read_fails = False\<rparr>)"
    by (simp add: eval_simps)
qed

subsection \<open>The close reply\<close>

lemma close_len_small: "n \<le> 123 \<Longrightarrow> (of_nat (n + 2) :: 64 word) < 126"
  unfolding word_less_nat_alt unat_of_nat by simp

lemma close_len_byte: "(ucast (of_nat n :: 64 word) :: byte) = of_nat n"
  by (rule bit_word_eqI) (simp add: bit_simps)

text \<open>
  Claim C8. For every close code and reason, \<^verbatim>\<open>createWebsocketCloseReply\<close> returns the
  two-byte header of an unfragmented Close frame (0x88 and the payload length) and then
  the body: the high byte and the low byte of the close code, followed by the first 123
  bytes of the reason's UTF-8 encoding (all of it when it is shorter). No reason is
  refused, and the body is never longer than 125 bytes.
\<close>

theorem C8_close_reply_body:
  "createWebsocketCloseReply cd msg closeCode =
     [0x88, of_nat (length (take 123 (toUtf8 cd msg)) + 2)] @
     [ucast (drop_bit 8 closeCode), ucast closeCode] @ take 123 (toUtf8 cd msg) \<and>
   length ([ucast (drop_bit 8 closeCode) :: byte, ucast closeCode] @ take 123 (toUtf8 cd msg))
     \<le> 125 \<and>
   store16 (ucast closeCode) (ucast (drop_bit 8 closeCode)) = closeCode"
proof -
  have n: "length (take 123 (toUtf8 cd msg)) \<le> 123" by simp
  have s: "store16 (ucast closeCode) (ucast (drop_bit 8 closeCode)) = closeCode"
    by (rule bit_word_eqI) (auto simp add: store16_def bit_simps dest: bit_imp_le_length)
  have hdr: "createWebsocketHeader OpCodeClose (of_nat (length (take 123 (toUtf8 cd msg)) + 2)) =
               [0x88, of_nat (length (take 123 (toUtf8 cd msg)) + 2)]"
    unfolding createWebsocketHeader_def using close_len_small[OF n]
    by (simp only: if_True close_len_byte OpCode_defs) simp
  show ?thesis
    unfolding createWebsocketCloseReply_def Let_def hdr ucast_and_ff16
    using s by simp
qed

lemma utf8_encode_ascii: "utf8_encode (replicate n 0x61) = replicate n 0x61"
  by (induction n) simp_all

theorem C8_close_reply_body_witness:
  "createWebsocketCloseReply bmp_utf8_codec [0x62, 0x79, 0x65] 1000 =
     [0x88, 5, 0x03, 0xE8, 0x62, 0x79, 0x65] \<and>
   length (createWebsocketCloseReply bmp_utf8_codec (replicate 200 0x61) 1001) = 127"
  using C8_close_reply_body [of bmp_utf8_codec "[0x62, 0x79, 0x65]" 1000]
    C8_close_reply_body [of bmp_utf8_codec "replicate 200 0x61" 1001]
  by (simp add: bmp_utf8_codec_def utf8_encode_ascii)

end
